theory Spec2Isabelle
  imports
    Main
    "HOL-Library.Sublist"
    "HOL-Library.Char_ord"
    "HOL-Library.List_Lexorder"
    "HOL-Library.Product_Lexorder"
begin

section \<open>Values, documents and the database\<close>

text \<open>
  The backend is an Express application over three MongoDB collections. The routes of
  \<^verbatim>\<open>src/routes/events.js\<close>, \<^verbatim>\<open>src/routes/auth.js\<close> and the admin router
  (\<^verbatim>\<open>src/unnamed/part_000\<close>) are embedded as functions from a database state and a
  request to a response and a new database state. ObjectIds are natural numbers (the
  routes only ever compare their \<^verbatim>\<open>toString()\<close>, which is equality), dates are
  milliseconds as integers, strings are byte strings, and a JSON number is an integer.
\<close>

type_synonym oid = nat

datatype json =
    JUndefined
  | JNull
  | JBool bool
  | JNum int
  | JStr string
  | JArr "json list"
  | JObj "(string \<times> json) list"

text \<open>JavaScript's \<^verbatim>\<open>ToBoolean\<close> on a value parsed from a JSON body.\<close>

fun truthy :: "json \<Rightarrow> bool" where
  "truthy JUndefined = False"
| "truthy JNull = False"
| "truthy (JBool b) = b"
| "truthy (JNum n) = (n \<noteq> 0)"
| "truthy (JStr s) = (s \<noteq> [])"
| "truthy (JArr _) = True"
| "truthy (JObj _) = True"

fun str_of :: "json \<Rightarrow> string" where
  "str_of (JStr s) = s"
| "str_of _ = []"

fun num_of :: "json \<Rightarrow> int" where
  "num_of (JNum n) = n"
| "num_of _ = 0"

fun strs_of :: "json \<Rightarrow> string list" where
  "strs_of (JArr vs) = map str_of vs"
| "strs_of _ = []"

text \<open>\<^verbatim>\<open>Array.prototype.findIndex\<close>; \<open>None\<close> is the result \<^verbatim>\<open>-1\<close>.\<close>

fun findIndex :: "('a \<Rightarrow> bool) \<Rightarrow> 'a list \<Rightarrow> nat option" where
  "findIndex P [] = None"
| "findIndex P (x # xs) = (if P x then Some 0 else map_option Suc (findIndex P xs))"

text \<open>\<^verbatim>\<open>xs.splice(i, 1)\<close>: the array without its element at index \<open>i\<close>.\<close>

definition splice1 :: "nat \<Rightarrow> 'a list \<Rightarrow> 'a list" where
  "splice1 i xs = take i xs @ drop (Suc i) xs"

text \<open>\<^verbatim>\<open>String.prototype.trim\<close> and \<^verbatim>\<open>toLowerCase\<close> on ASCII.\<close>

definition is_space :: "char \<Rightarrow> bool" where
  "is_space c = (c \<in> set [CHR '' '', CHR 0x09, CHR 0x0A, CHR 0x0B, CHR 0x0C, CHR 0x0D])"

definition trim :: "string \<Rightarrow> string" where
  "trim s = rev (dropWhile is_space (rev (dropWhile is_space s)))"

definition to_lower :: "char \<Rightarrow> char" where
  "to_lower c =
     (case map_of (zip ''ABCDEFGHIJKLMNOPQRSTUVWXYZ'' ''abcdefghijklmnopqrstuvwxyz'') c of
        Some l \<Rightarrow> l
      | None \<Rightarrow> c)"

definition toLowerCase :: "string \<Rightarrow> string" where
  "toLowerCase s = map to_lower s"

record rsvp =
  rsvp_user_id :: oid
  rsvp_status :: string

record comment =
  comment_id :: oid
  comment_user_id :: oid
  comment_username :: string
  comment_text :: string
  comment_created_at :: int

text \<open>
  Modelled from the spec: \<^verbatim>\<open>models/Event\<close> and \<^verbatim>\<open>models/User\<close> are not among the
  sources. The fields are those of the spec's data model (section 3) and those the routes
  read and write.
\<close>

record event =
  event_id :: oid
  title :: string
  description :: string
  category :: string
  date :: string
  time :: string
  location :: string
  contact_info :: string
  image_url :: string
  max_capacity :: int
  tags :: "string list"
  organizer :: string
  organizer_id :: oid
  attendees_going :: int
  attendees_interested :: int
  rsvps :: "rsvp list"
  favorites :: "oid list"
  comments :: "comment list"
  created_at :: int
  updated_at :: int

record user =
  user_id :: oid
  username :: string
  email :: string
  password :: string
  zipcode :: string
  isAdmin :: bool
  lastLogin :: "int option"
  createdAt :: int

text \<open>
  The two collections in their natural order, and the source of fresh ObjectIds (the
  driver generates them; here they are counted up).
\<close>

record db =
  users :: "user list"
  events :: "event list"
  next_oid :: oid

text \<open>
  The functions of libraries the routes call into and that are no code of this
  repository: the regular-expression engine with the flag \<^verbatim>\<open>i\<close> (\<open>None\<close> when the
  pattern is rejected, otherwise the test of a subject string), Joi's \<^verbatim>\<open>email()\<close> and
  \<^verbatim>\<open>uri()\<close> checks, and the password hash and its comparison.
\<close>

record libs =
  regex_i :: "string \<Rightarrow> (string \<Rightarrow> bool) option"
  is_email :: "string \<Rightarrow> bool"
  is_uri :: "string \<Rightarrow> bool"
  hash_password :: "string \<Rightarrow> string"
  compare_password :: "string \<Rightarrow> string \<Rightarrow> bool"

datatype joi_message = Custom string | Default string string

record client_event =
  ce_event :: event
  user_rsvp_status :: string
  is_favorited :: bool

record auth_body =
  ab_id :: oid
  ab_username :: string
  ab_email :: string
  ab_isAdmin :: bool
  ab_token :: oid

datatype body =
    Message string
  | ValidationMessage joi_message
  | AuthRejected
  | NoContent
  | EventBody client_event
  | EventList "client_event list"
  | RsvpResult oid json
  | FavoriteResult oid json
  | CommentBody comment
  | CommentList "comment list"
  | Cleared nat
  | AuthBody auth_body

type_synonym response = "nat \<times> body"

subsection \<open>Collection operations\<close>

definition findById :: "oid \<Rightarrow> event list \<Rightarrow> event option" where
  "findById i es = find (\<lambda>e. event_id e = i) es"

text \<open>\<^verbatim>\<open>doc.save()\<close> of a loaded document: the stored document of that id is replaced.\<close>

fun replace_first :: "('a \<Rightarrow> bool) \<Rightarrow> 'a \<Rightarrow> 'a list \<Rightarrow> 'a list" where
  "replace_first P y [] = []"
| "replace_first P y (x # xs) = (if P x then y # xs else x # replace_first P y xs)"

fun delete_first :: "('a \<Rightarrow> bool) \<Rightarrow> 'a list \<Rightarrow> 'a list" where
  "delete_first P [] = []"
| "delete_first P (x # xs) = (if P x then xs else x # delete_first P xs)"

definition save_event :: "event \<Rightarrow> db \<Rightarrow> db" where
  "save_event e d = d\<lparr>events := replace_first (\<lambda>x. event_id x = event_id e) e (events d)\<rparr>"

definition findByIdAndDelete :: "oid \<Rightarrow> event list \<Rightarrow> event list" where
  "findByIdAndDelete i es = delete_first (\<lambda>e. event_id e = i) es"

subsection \<open>The authorization guard\<close>

text \<open>
  Modelled from the spec: \<^verbatim>\<open>middleware/auth\<close> is not among the sources. Following
  section 4.3, a request carries no token, a token that fails verification, or a token
  that verifies to a user id. Required-auth rejects the first two (and an id without a
  user record) with 401 and otherwise attaches the user; optional-auth yields an
  anonymous context instead of rejecting; admin-required performs required-auth and then
  rejects a user without the \<^verbatim>\<open>isAdmin\<close> flag with 403.
\<close>

datatype bearer = NoToken | BadToken | GoodToken oid

fun verify :: "bearer \<Rightarrow> oid option" where
  "verify (GoodToken i) = Some i"
| "verify _ = None"

definition auth :: "user list \<Rightarrow> bearer \<Rightarrow> response + user" where
  "auth us b =
     (case verify b of
        None \<Rightarrow> Inl (401, AuthRejected)
      | Some i \<Rightarrow>
          (case find (\<lambda>u. user_id u = i) us of
             None \<Rightarrow> Inl (401, AuthRejected)
           | Some u \<Rightarrow> Inr u))"

definition optionalAuth :: "user list \<Rightarrow> bearer \<Rightarrow> oid option" where
  "optionalAuth us b = (case auth us b of Inl _ \<Rightarrow> None | Inr u \<Rightarrow> Some (user_id u))"

definition adminAuth :: "user list \<Rightarrow> bearer \<Rightarrow> response + user" where
  "adminAuth us b =
     (case auth us b of
        Inl r \<Rightarrow> Inl r
      | Inr u \<Rightarrow> if isAdmin u then Inr u else Inl (403, AuthRejected))"

section \<open>Input validation (the Joi schemas)\<close>

text \<open>
  A schema is checked key by key in the order of its declaration and the first failure
  is reported (\<^verbatim>\<open>error.details[0]\<close>), here as the rule that failed. A value listed by
  \<^verbatim>\<open>allow('')\<close> passes without the other rules. Joi's conversion of numeric strings
  for \<^verbatim>\<open>Joi.number()\<close> is left out: a number is a JSON number.
\<close>

fun joi_string :: "bool \<Rightarrow> bool \<Rightarrow> (string \<times> (string \<Rightarrow> bool)) list \<Rightarrow> json \<Rightarrow> string option" where
  "joi_string required allow_empty rules JUndefined =
     (if required then Some ''any.required'' else None)"
| "joi_string required allow_empty rules (JStr s) =
     (if s = [] then (if allow_empty then None else Some ''string.empty'')
      else map_option fst (find (\<lambda>r. \<not> snd r s) rules))"
| "joi_string required allow_empty rules v = Some ''string.base''"

definition str_min :: "nat \<Rightarrow> string \<times> (string \<Rightarrow> bool)" where
  "str_min n = (''string.min'', \<lambda>s. n \<le> length s)"

definition str_max :: "nat \<Rightarrow> string \<times> (string \<Rightarrow> bool)" where
  "str_max n = (''string.max'', \<lambda>s. length s \<le> n)"

definition is_digit :: "char \<Rightarrow> bool" where
  "is_digit c = (CHR ''0'' \<le> c \<and> c \<le> CHR ''9'')"

text \<open>The pattern \<^verbatim>\<open>/^\d{4}-\d{2}-\d{2}$/\<close>.\<close>

definition date_pattern :: "string \<Rightarrow> bool" where
  "date_pattern s =
     (length s = 10 \<and> list_all is_digit (take 4 s) \<and> s ! 4 = CHR ''-''
      \<and> list_all is_digit (take 2 (drop 5 s)) \<and> s ! 7 = CHR ''-''
      \<and> list_all is_digit (drop 8 s))"

text \<open>The pattern \<^verbatim>\<open>/^\d{5}(-\d{4})?$/\<close>.\<close>

definition zipcode_pattern :: "string \<Rightarrow> bool" where
  "zipcode_pattern s =
     (list_all is_digit (take 5 s) \<and>
      (length s = 5 \<or>
       (length s = 10 \<and> s ! 5 = CHR ''-'' \<and> list_all is_digit (drop 6 s))))"

definition categories :: "string list" where
  "categories = [''general'', ''garage_sale'', ''sports'', ''church'', ''town_meeting'',
     ''community'', ''fundraiser'', ''workshop'', ''festival'']"

definition joi_category :: "json \<Rightarrow> string option" where
  "joi_category v =
     (if v = JUndefined then Some ''any.required''
      else if v \<in> set (map JStr categories) then None
      else Some ''any.only'')"

definition joi_max_capacity :: "json \<Rightarrow> string option" where
  "joi_max_capacity v =
     (case v of
        JUndefined \<Rightarrow> None
      | JNum n \<Rightarrow> if n < 0 then Some ''number.min'' else None
      | _ \<Rightarrow> Some ''number.base'')"

definition is_JStr :: "json \<Rightarrow> bool" where
  "is_JStr v = (case v of JStr s \<Rightarrow> s \<noteq> [] | _ \<Rightarrow> False)"

definition joi_tags :: "json \<Rightarrow> string option" where
  "joi_tags v =
     (case v of
        JUndefined \<Rightarrow> None
      | JArr vs \<Rightarrow>
          if \<not> list_all is_JStr vs then Some ''string.base''
          else if 10 < length vs then Some ''array.max''
          else None
      | _ \<Rightarrow> Some ''array.base'')"

record event_body =
  b_title :: json
  b_description :: json
  b_category :: json
  b_date :: json
  b_time :: json
  b_location :: json
  b_contact_info :: json
  b_image_url :: json
  b_max_capacity :: json
  b_tags :: json

text \<open>The first failing key of a list of checked keys.\<close>

fun first_error :: "(string \<times> string option) list \<Rightarrow> (string \<times> string) option" where
  "first_error [] = None"
| "first_error ((k, None) # ks) = first_error ks"
| "first_error ((k, Some r) # ks) = Some (k, r)"

definition eventSchema_validate :: "libs \<Rightarrow> event_body \<Rightarrow> joi_message option" where
  "eventSchema_validate L b =
     map_option (\<lambda>kr. Default (fst kr) (snd kr))
       (first_error
         [(''title'', joi_string True False [str_min 3, str_max 100] (b_title b)),
          (''description'', joi_string False True [str_max 2000] (b_description b)),
          (''category'', joi_category (b_category b)),
          (''date'', joi_string True False [(''string.pattern.base'', date_pattern)] (b_date b)),
          (''time'', joi_string False True [] (b_time b)),
          (''location'', joi_string True False [str_max 200] (b_location b)),
          (''contact_info'', joi_string False True [str_max 100] (b_contact_info b)),
          (''image_url'', joi_string False True [(''string.uri'', is_uri L)] (b_image_url b)),
          (''max_capacity'', joi_max_capacity (b_max_capacity b)),
          (''tags'', joi_tags (b_tags b))])"

section \<open>The event routes\<close>

text \<open>
  Modelled from the spec: \<^verbatim>\<open>toClientJSON\<close> is a method of the missing
  \<^verbatim>\<open>models/Event\<close>. Following section 4.4 it folds in the viewer's own entry in
  \<open>rsvps\<close> (or empty) and whether the viewer is in \<open>favorites\<close>, and omits no field.
\<close>

definition toClientJSON :: "oid option \<Rightarrow> event \<Rightarrow> client_event" where
  "toClientJSON viewer e =
     \<lparr>ce_event = e,
      user_rsvp_status =
        (case viewer of
           None \<Rightarrow> []
         | Some v \<Rightarrow>
             (case find (\<lambda>r. rsvp_user_id r = v) (rsvps e) of
                None \<Rightarrow> []
              | Some r \<Rightarrow> rsvp_status r)),
      is_favorited = (case viewer of None \<Rightarrow> False | Some v \<Rightarrow> v \<in> set (favorites e))\<rparr>"

text \<open>
  \<^verbatim>\<open>GET /api/events\<close>. A query parameter is absent or a string;
  \<^verbatim>\<open>if (category)\<close> and \<^verbatim>\<open>if (search)\<close> skip the empty string as well. The
  \<^verbatim>\<open>$regex\<close> conditions hand the search text to the regular-expression engine as a
  pattern; a pattern the engine rejects fails the query, which the handler answers with
  500. The sort is by \<open>date\<close> ascending (a string, compared bytewise) and then by
  \<open>created_at\<close> descending; documents equal in both keep their natural order.
\<close>

definition category_ok :: "string option \<Rightarrow> event \<Rightarrow> bool" where
  "category_ok cat e =
     (case cat of None \<Rightarrow> True | Some c \<Rightarrow> if c = [] then True else category e = c)"

definition search_matcher :: "libs \<Rightarrow> string option \<Rightarrow> (string \<Rightarrow> bool) option" where
  "search_matcher L search =
     (case search of
        None \<Rightarrow> Some (\<lambda>s. True)
      | Some p \<Rightarrow> if p = [] then Some (\<lambda>s. True) else regex_i L p)"

definition matches_query :: "string option \<Rightarrow> (string \<Rightarrow> bool) \<Rightarrow> event \<Rightarrow> bool" where
  "matches_query cat m e =
     (category_ok cat e \<and> (m (title e) \<or> m (description e) \<or> m (location e)))"

definition sort_events :: "event list \<Rightarrow> event list" where
  "sort_events es = sort_key (\<lambda>e. (date e, - created_at e)) es"

definition get_events :: "libs \<Rightarrow> bearer \<Rightarrow> string option \<Rightarrow> string option \<Rightarrow> db \<Rightarrow> response" where
  "get_events L b cat search d =
     (case search_matcher L search of
        None \<Rightarrow> (500, Message ''Failed to fetch events'')
      | Some m \<Rightarrow>
          (200, EventList (map (toClientJSON (optionalAuth (users d) b))
                  (sort_events (filter (matches_query cat m) (events d))))))"

text \<open>\<^verbatim>\<open>GET /api/events/:id\<close>.\<close>

definition get_event :: "bearer \<Rightarrow> oid \<Rightarrow> db \<Rightarrow> response" where
  "get_event b i d =
     (case findById i (events d) of
        None \<Rightarrow> (404, Message ''Event not found'')
      | Some e \<Rightarrow> (200, EventBody (toClientJSON (optionalAuth (users d) b) e)))"

text \<open>
  \<^verbatim>\<open>Object.assign(event, req.body)\<close>: every key present in the body overwrites the
  field of the document.
\<close>

definition assign_body :: "event_body \<Rightarrow> event \<Rightarrow> event" where
  "assign_body b e =
     e\<lparr>title := (if b_title b = JUndefined then title e else str_of (b_title b)),
       description :=
         (if b_description b = JUndefined then description e else str_of (b_description b)),
       category := (if b_category b = JUndefined then category e else str_of (b_category b)),
       date := (if b_date b = JUndefined then date e else str_of (b_date b)),
       time := (if b_time b = JUndefined then time e else str_of (b_time b)),
       location := (if b_location b = JUndefined then location e else str_of (b_location b)),
       contact_info :=
         (if b_contact_info b = JUndefined then contact_info e else str_of (b_contact_info b)),
       image_url :=
         (if b_image_url b = JUndefined then image_url e else str_of (b_image_url b)),
       max_capacity :=
         (if b_max_capacity b = JUndefined then max_capacity e else num_of (b_max_capacity b)),
       tags := (if b_tags b = JUndefined then tags e else strs_of (b_tags b))\<rparr>"

text \<open>
  Modelled from the spec: the defaults of the missing \<^verbatim>\<open>models/Event\<close> schema. By
  section 4.4 a new event has its counters at zero and \<open>rsvps\<close>, \<open>favorites\<close> and
  \<open>comments\<close> empty.
\<close>

definition new_Event :: "oid \<Rightarrow> int \<Rightarrow> event_body \<Rightarrow> user \<Rightarrow> event" where
  "new_Event i now b u =
     assign_body b
       \<lparr>event_id = i, title = [], description = [], category = [], date = [], time = [],
        location = [], contact_info = [], image_url = [], max_capacity = 0, tags = [],
        organizer = username u, organizer_id = user_id u,
        attendees_going = 0, attendees_interested = 0,
        rsvps = [], favorites = [], comments = [],
        created_at = now, updated_at = now\<rparr>"

text \<open>\<^verbatim>\<open>POST /api/events\<close>.\<close>

definition post_event :: "libs \<Rightarrow> int \<Rightarrow> bearer \<Rightarrow> event_body \<Rightarrow> db \<Rightarrow> response \<times> db" where
  "post_event L now b bd d =
     (case auth (users d) b of
        Inl r \<Rightarrow> (r, d)
      | Inr u \<Rightarrow>
          (case eventSchema_validate L bd of
             Some err \<Rightarrow> ((400, ValidationMessage err), d)
           | None \<Rightarrow>
               (let e = new_Event (next_oid d) now bd u
                in ((201, EventBody (toClientJSON (Some (user_id u)) e)),
                    d\<lparr>events := events d @ [e], next_oid := Suc (next_oid d)\<rparr>))))"

text \<open>\<^verbatim>\<open>PUT /api/events/:id\<close>: validation, then lookup, then the organizer check.\<close>

definition put_event :: "libs \<Rightarrow> int \<Rightarrow> bearer \<Rightarrow> oid \<Rightarrow> event_body \<Rightarrow> db \<Rightarrow> response \<times> db" where
  "put_event L now b i bd d =
     (case auth (users d) b of
        Inl r \<Rightarrow> (r, d)
      | Inr u \<Rightarrow>
          (case eventSchema_validate L bd of
             Some err \<Rightarrow> ((400, ValidationMessage err), d)
           | None \<Rightarrow>
               (case findById i (events d) of
                  None \<Rightarrow> ((404, Message ''Event not found''), d)
                | Some e \<Rightarrow>
                    if organizer_id e \<noteq> user_id u
                    then ((403, Message ''You can only edit your own events''), d)
                    else
                      (let e' = (assign_body bd e)\<lparr>updated_at := now\<rparr>
                       in ((200, EventBody (toClientJSON (Some (user_id u)) e')),
                           save_event e' d)))))"

text \<open>\<^verbatim>\<open>DELETE /api/events/:id\<close>.\<close>

definition delete_event :: "bearer \<Rightarrow> oid \<Rightarrow> db \<Rightarrow> response \<times> db" where
  "delete_event b i d =
     (case auth (users d) b of
        Inl r \<Rightarrow> (r, d)
      | Inr u \<Rightarrow>
          (case findById i (events d) of
             None \<Rightarrow> ((404, Message ''Event not found''), d)
           | Some e \<Rightarrow>
               if organizer_id e \<noteq> user_id u
               then ((403, Message ''You can only delete your own events''), d)
               else ((204, NoContent), d\<lparr>events := findByIdAndDelete i (events d)\<rparr>)))"

subsection \<open>RSVP, favorite and comments\<close>

text \<open>
  The mutation of the loaded document in \<^verbatim>\<open>POST /api/events/:id/rsvp\<close>: the entry
  found by \<^verbatim>\<open>findIndex\<close> is counted down and spliced out, then a truthy status other
  than \<^verbatim>\<open>not_going\<close> is pushed and counted up.
\<close>

definition rsvp_remove :: "oid \<Rightarrow> event \<Rightarrow> event" where
  "rsvp_remove uid e =
     (case findIndex (\<lambda>r. rsvp_user_id r = uid) (rsvps e) of
        None \<Rightarrow> e
      | Some i \<Rightarrow>
          (let oldStatus = rsvp_status (rsvps e ! i);
               e1 = (if oldStatus = ''going''
                     then e\<lparr>attendees_going := attendees_going e - 1\<rparr> else e);
               e2 = (if oldStatus = ''interested''
                     then e1\<lparr>attendees_interested := attendees_interested e1 - 1\<rparr> else e1)
           in e2\<lparr>rsvps := splice1 i (rsvps e2)\<rparr>))"

definition rsvp_add :: "oid \<Rightarrow> json \<Rightarrow> event \<Rightarrow> event" where
  "rsvp_add uid v e =
     (if truthy v \<and> v \<noteq> JStr ''not_going'' then
        (let e1 = e\<lparr>rsvps := rsvps e @ [\<lparr>rsvp_user_id = uid, rsvp_status = str_of v\<rparr>]\<rparr>;
             e2 = (if v = JStr ''going''
                   then e1\<lparr>attendees_going := attendees_going e1 + 1\<rparr> else e1);
             e3 = (if v = JStr ''interested''
                   then e2\<lparr>attendees_interested := attendees_interested e2 + 1\<rparr> else e2)
         in e3)
      else e)"

definition rsvp_update :: "oid \<Rightarrow> json \<Rightarrow> event \<Rightarrow> event" where
  "rsvp_update uid v e = rsvp_add uid v (rsvp_remove uid e)"

definition valid_rsvp_status :: "json \<Rightarrow> bool" where
  "valid_rsvp_status v =
     (v \<in> set [JStr ''going'', JStr ''interested'', JStr ''not_going'', JStr []])"

definition post_rsvp :: "bearer \<Rightarrow> oid \<Rightarrow> json \<Rightarrow> db \<Rightarrow> response \<times> db" where
  "post_rsvp b i v d =
     (case auth (users d) b of
        Inl r \<Rightarrow> (r, d)
      | Inr u \<Rightarrow>
          if \<not> valid_rsvp_status v then ((400, Message ''Invalid RSVP status''), d)
          else
            (case findById i (events d) of
               None \<Rightarrow> ((404, Message ''Event not found''), d)
             | Some e \<Rightarrow>
                 (let e' = rsvp_update (user_id u) v e
                  in ((200, RsvpResult (event_id e') v), save_event e' d))))"

text \<open>\<^verbatim>\<open>POST /api/events/:id/favorite\<close>.\<close>

definition favorite_update :: "oid \<Rightarrow> json \<Rightarrow> event \<Rightarrow> event" where
  "favorite_update uid v e =
     (let favIndex = findIndex (\<lambda>f. f = uid) (favorites e)
      in if truthy v \<and> favIndex = None then e\<lparr>favorites := favorites e @ [uid]\<rparr>
         else if \<not> truthy v \<and> favIndex \<noteq> None
              then e\<lparr>favorites := splice1 (the favIndex) (favorites e)\<rparr>
         else e)"

definition post_favorite :: "bearer \<Rightarrow> oid \<Rightarrow> json \<Rightarrow> db \<Rightarrow> response \<times> db" where
  "post_favorite b i v d =
     (case auth (users d) b of
        Inl r \<Rightarrow> (r, d)
      | Inr u \<Rightarrow>
          (case findById i (events d) of
             None \<Rightarrow> ((404, Message ''Event not found''), d)
           | Some e \<Rightarrow>
               (let e' = favorite_update (user_id u) v e
                in ((200, FavoriteResult (event_id e') v), save_event e' d))))"

text \<open>
  \<^verbatim>\<open>POST /api/events/:id/comments\<close>. A truthy \<^verbatim>\<open>text\<close> that is no string has no
  \<^verbatim>\<open>trim\<close>; the call throws and the handler's \<^verbatim>\<open>catch\<close> answers 500. The new
  subdocument gets a fresh id.
\<close>

definition post_comment :: "int \<Rightarrow> bearer \<Rightarrow> oid \<Rightarrow> json \<Rightarrow> db \<Rightarrow> response \<times> db" where
  "post_comment now b i v d =
     (case auth (users d) b of
        Inl r \<Rightarrow> (r, d)
      | Inr u \<Rightarrow>
          if \<not> truthy v then ((400, Message ''Comment text is required''), d)
          else
            (case v of
               JStr text \<Rightarrow>
                 if length (trim text) = 0 then ((400, Message ''Comment text is required''), d)
                 else if 500 < length text
                 then ((400, Message ''Comment cannot exceed 500 characters''), d)
                 else
                   (case findById i (events d) of
                      None \<Rightarrow> ((404, Message ''Event not found''), d)
                    | Some e \<Rightarrow>
                        (let newComment =
                               \<lparr>comment_id = next_oid d, comment_user_id = user_id u,
                                comment_username = username u, comment_text = trim text,
                                comment_created_at = now\<rparr>;
                             e' = e\<lparr>comments := comments e @ [newComment]\<rparr>
                         in ((201, CommentBody newComment),
                             (save_event e' d)\<lparr>next_oid := Suc (next_oid d)\<rparr>)))
             | _ \<Rightarrow> ((500, Message ''Failed to add comment''), d)))"

text \<open>
  \<^verbatim>\<open>GET /api/events/:id/comments\<close>. \<^verbatim>\<open>Array.prototype.sort\<close> is stable; with the
  comparator \<^verbatim>\<open>b.created_at - a.created_at\<close> it is the stable sort on the negated
  creation time. The sorted array is not saved.
\<close>

definition sort_comments :: "comment list \<Rightarrow> comment list" where
  "sort_comments cs = sort_key (\<lambda>c. - comment_created_at c) cs"

definition get_comments :: "bearer \<Rightarrow> oid \<Rightarrow> db \<Rightarrow> response" where
  "get_comments b i d =
     (case findById i (events d) of
        None \<Rightarrow> (404, Message ''Event not found'')
      | Some e \<Rightarrow> (200, CommentList (sort_comments (comments e))))"

text \<open>
  \<^verbatim>\<open>DELETE /api/events/admin/clear-all\<close>. The route is registered without any
  middleware, so the bearer is not looked at; \<^verbatim>\<open>/:id\<close> matches one path segment only
  and does not shadow it.
\<close>

definition clear_all :: "bearer \<Rightarrow> db \<Rightarrow> response \<times> db" where
  "clear_all b d = ((200, Cleared (length (events d))), d\<lparr>events := []\<rparr>)"


section \<open>The authentication routes\<close>

record register_body =
  rb_username :: json
  rb_email :: json
  rb_password :: json
  rb_zipcode :: json

record login_body =
  lb_email :: json
  lb_password :: json

text \<open>The custom messages of \<^verbatim>\<open>registerSchema\<close>; any other rule has Joi's own text.\<close>

definition register_messages :: "(string \<times> string) list \<Rightarrow> string \<times> string \<Rightarrow> joi_message" where
  "register_messages table kr =
     (case map_of table (fst kr @ ''/'' @ snd kr) of
        Some m \<Rightarrow> Custom m
      | None \<Rightarrow> Default (fst kr) (snd kr))"

definition registerSchema_messages :: "(string \<times> string) list" where
  "registerSchema_messages =
     [(''username/string.min'', ''Username must be at least 3 characters''),
      (''username/string.max'', ''Username must be less than 30 characters''),
      (''username/any.required'', ''Username is required''),
      (''email/string.email'', ''Please enter a valid email address''),
      (''email/any.required'', ''Email is required''),
      (''password/string.min'', ''Password must be at least 6 characters''),
      (''password/string.max'', ''Password is too long''),
      (''password/any.required'', ''Password is required''),
      (''zipcode/string.pattern.base'',
         ''Please enter a valid zip code (5 digits, e.g., 12345)''),
      (''zipcode/any.required'', ''Zip code is required'')]"

definition registerSchema_validate :: "libs \<Rightarrow> register_body \<Rightarrow> joi_message option" where
  "registerSchema_validate L b =
     map_option (register_messages registerSchema_messages)
       (first_error
         [(''username'', joi_string True False [str_min 3, str_max 30] (rb_username b)),
          (''email'', joi_string True False [(''string.email'', is_email L)] (rb_email b)),
          (''password'', joi_string True False [str_min 6, str_max 100] (rb_password b)),
          (''zipcode'',
             joi_string True False [(''string.pattern.base'', zipcode_pattern)] (rb_zipcode b))])"

definition loginSchema_validate :: "libs \<Rightarrow> login_body \<Rightarrow> joi_message option" where
  "loginSchema_validate L b =
     map_option (\<lambda>kr. Default (fst kr) (snd kr))
       (first_error
         [(''email'', joi_string True False [(''string.email'', is_email L)] (lb_email b)),
          (''password'', joi_string True False [] (lb_password b))])"

text \<open>
  Modelled from the spec: \<^verbatim>\<open>user.save()\<close> of the missing \<^verbatim>\<open>models/User\<close>. By
  section 4.1 the password is hashed before persistence and the collection's unique
  indexes on \<open>email\<close> and \<open>username\<close> are the final arbiter: a stored value that is already
  present fails the insert with the duplicate-key error (code 11000) carrying the key,
  which the route turns into a 409. An index compares the stored values as they are.
  \<open>Inl\<close> is that error with the first key of its \<^verbatim>\<open>keyPattern\<close>.
\<close>

definition save_user :: "libs \<Rightarrow> user \<Rightarrow> db \<Rightarrow> string + db" where
  "save_user L u d =
     (if list_ex (\<lambda>x. email x = email u) (users d) then Inl ''email''
      else if list_ex (\<lambda>x. username x = username u) (users d) then Inl ''username''
      else Inr (d\<lparr>users := users d @ [u\<lparr>password := hash_password L (password u)\<rparr>],
                  next_oid := Suc (next_oid d)\<rparr>))"

definition auth_response :: "user \<Rightarrow> body" where
  "auth_response u =
     AuthBody \<lparr>ab_id = user_id u, ab_username = username u, ab_email = email u,
               ab_isAdmin = isAdmin u, ab_token = user_id u\<rparr>"

text \<open>
  \<^verbatim>\<open>POST /api/auth/register\<close>. The pattern of the username lookup is built by
  \<^verbatim>\<open>new RegExp(`^${username}$`, 'i')\<close> from the trimmed username as it is; when the
  constructor throws, the \<^verbatim>\<open>catch\<close> finds no error code and answers 500.
  \<^verbatim>\<open>findOne\<close> returns the first user matching either condition.
\<close>

definition register :: "libs \<Rightarrow> int \<Rightarrow> register_body \<Rightarrow> db \<Rightarrow> response \<times> db" where
  "register L now b d =
     (case registerSchema_validate L b of
        Some err \<Rightarrow> ((400, ValidationMessage err), d)
      | None \<Rightarrow>
          (let username' = trim (str_of (rb_username b));
               email' = trim (toLowerCase (str_of (rb_email b)));
               password' = str_of (rb_password b);
               zipcode' = trim (str_of (rb_zipcode b))
           in case regex_i L (''^'' @ username' @ ''$'') of
                None \<Rightarrow>
                  ((500, Message ''Unable to create account. Please try again later.''), d)
              | Some m \<Rightarrow>
                  (case find (\<lambda>u. email u = email' \<or> m (username u)) (users d) of
                     Some existingUser \<Rightarrow>
                       if email existingUser = email'
                       then ((409, Message (''This email is already registered. '' @
                                ''Please use a different email or try logging in.'')), d)
                       else ((409, Message (''This username is already taken. '' @
                                ''Please choose a different username.'')), d)
                   | None \<Rightarrow>
                       (let u = \<lparr>user_id = next_oid d, username = username', email = email',
                                 password = password', zipcode = zipcode', isAdmin = False,
                                 lastLogin = None, createdAt = now\<rparr>
                        in case save_user L u d of
                             Inl field \<Rightarrow>
                               ((409, Message (''This '' @ field @
                                   '' is already registered. Please use a different '' @
                                   field @ ''.'')), d)
                           | Inr d' \<Rightarrow> ((201, auth_response u), d')))))"

text \<open>\<^verbatim>\<open>POST /api/auth/login\<close>.\<close>

definition invalid_credentials :: response where
  "invalid_credentials =
     (401, Message (''Invalid email or password. '' @
        ''Please check your credentials and try again.''))"

definition login :: "libs \<Rightarrow> int \<Rightarrow> login_body \<Rightarrow> db \<Rightarrow> response \<times> db" where
  "login L now b d =
     (case loginSchema_validate L b of
        Some err \<Rightarrow> ((400, ValidationMessage err), d)
      | None \<Rightarrow>
          (let email' = trim (toLowerCase (str_of (lb_email b)));
               password' = str_of (lb_password b)
           in case find (\<lambda>u. email u = email') (users d) of
                None \<Rightarrow> (invalid_credentials, d)
              | Some u \<Rightarrow>
                  if \<not> compare_password L password' (password u)
                  then (invalid_credentials, d)
                  else
                    (let u' = u\<lparr>lastLogin := Some now\<rparr>
                     in ((200, auth_response u'),
                         d\<lparr>users := replace_first (\<lambda>x. user_id x = user_id u') u' (users d)\<rparr>))))"

section \<open>The admin routes that write\<close>

text \<open>\<^verbatim>\<open>DELETE /api/admin/users/:id\<close>: the user and, before it, every event it organizes.\<close>

definition admin_delete_user :: "bearer \<Rightarrow> oid \<Rightarrow> db \<Rightarrow> response \<times> db" where
  "admin_delete_user b uid d =
     (case adminAuth (users d) b of
        Inl r \<Rightarrow> (r, d)
      | Inr a \<Rightarrow>
          if uid = user_id a then ((400, Message ''Cannot delete your own account''), d)
          else
            (case find (\<lambda>u. user_id u = uid) (users d) of
               None \<Rightarrow> ((404, Message ''User not found''), d)
             | Some u \<Rightarrow>
                 ((200, Message ''User and their events deleted successfully''),
                  d\<lparr>events := filter (\<lambda>e. organizer_id e \<noteq> uid) (events d),
                    users := delete_first (\<lambda>x. user_id x = uid) (users d)\<rparr>)))"

text \<open>\<^verbatim>\<open>DELETE /api/admin/events/:id\<close>.\<close>

definition admin_delete_event :: "bearer \<Rightarrow> oid \<Rightarrow> db \<Rightarrow> response \<times> db" where
  "admin_delete_event b i d =
     (case adminAuth (users d) b of
        Inl r \<Rightarrow> (r, d)
      | Inr a \<Rightarrow>
          (case findById i (events d) of
             None \<Rightarrow> ((404, Message ''Event not found''), d)
           | Some e \<Rightarrow>
               ((200, Message ''Event deleted successfully''),
                d\<lparr>events := findByIdAndDelete i (events d)\<rparr>)))"

section \<open>Requests\<close>

text \<open>
  The routes that read or write the event and user collections. The remaining routes
  (the admin listings and statistics, the notifications, the health probe) write to
  neither.
\<close>

datatype request =
    GetEvents bearer "string option" "string option"
  | GetEvent bearer oid
  | PostEvent bearer event_body
  | PutEvent bearer oid event_body
  | DeleteEvent bearer oid
  | PostRsvp bearer oid json
  | PostFavorite bearer oid json
  | PostComment bearer oid json
  | GetComments bearer oid
  | ClearAll bearer
  | Register register_body
  | Login login_body
  | AdminDeleteUser bearer oid
  | AdminDeleteEvent bearer oid

fun handle :: "libs \<Rightarrow> int \<Rightarrow> db \<Rightarrow> request \<Rightarrow> response \<times> db" where
  "handle L now d (GetEvents b cat search) = (get_events L b cat search d, d)"
| "handle L now d (GetEvent b i) = (get_event b i d, d)"
| "handle L now d (PostEvent b bd) = post_event L now b bd d"
| "handle L now d (PutEvent b i bd) = put_event L now b i bd d"
| "handle L now d (DeleteEvent b i) = delete_event b i d"
| "handle L now d (PostRsvp b i v) = post_rsvp b i v d"
| "handle L now d (PostFavorite b i v) = post_favorite b i v d"
| "handle L now d (PostComment b i v) = post_comment now b i v d"
| "handle L now d (GetComments b i) = (get_comments b i d, d)"
| "handle L now d (ClearAll b) = clear_all b d"
| "handle L now d (Register bd) = register L now bd d"
| "handle L now d (Login bd) = login L now bd d"
| "handle L now d (AdminDeleteUser b uid) = admin_delete_user b uid d"
| "handle L now d (AdminDeleteEvent b i) = admin_delete_event b i d"

text \<open>A run of requests, each with the clock reading at its arrival.\<close>

fun run :: "libs \<Rightarrow> db \<Rightarrow> (int \<times> request) list \<Rightarrow> db" where
  "run L d [] = d"
| "run L d (r # rs) = run L (snd (handle L (fst r) d (snd r))) rs"


section \<open>A reference regular-expression engine\<close>

text \<open>
  The engine is a parameter of the routes. To run them on concrete inputs, here is an
  engine for the patterns made of literal characters, \<^verbatim>\<open>.\<close>, the postfix quantifiers
  \<^verbatim>\<open>*\<close>, \<^verbatim>\<open>+\<close> and \<^verbatim>\<open>?\<close> on one character, \<^verbatim>\<open>^\<close> in front and \<^verbatim>\<open>$\<close> at the
  end, matching as the flag \<^verbatim>\<open>i\<close> does on ASCII. On these patterns it is the standard
  semantics; it rejects every other pattern, which a full engine may accept.
\<close>

datatype atom = Lit char | AnyChar

datatype piece = One atom | Star atom | Plus atom | Opt atom

definition is_meta :: "char \<Rightarrow> bool" where
  "is_meta c =
     (c \<in> set [CHR 0x5C, CHR ''^'', CHR ''$'', CHR ''.'', CHR ''|'', CHR ''?'', CHR ''*'',
        CHR ''+'', CHR ''('', CHR '')'', CHR ''['', CHR '']'', CHR ''{'', CHR ''}''])"

definition atom_of :: "char \<Rightarrow> atom" where
  "atom_of c = (if c = CHR ''.'' then AnyChar else Lit c)"

fun parse_pieces :: "string \<Rightarrow> piece list option" where
  "parse_pieces [] = Some []"
| "parse_pieces [c] = (if c \<noteq> CHR ''.'' \<and> is_meta c then None else Some [One (atom_of c)])"
| "parse_pieces (c # q # cs) =
     (if c \<noteq> CHR ''.'' \<and> is_meta c then None
      else if q = CHR ''*'' then map_option ((#) (Star (atom_of c))) (parse_pieces cs)
      else if q = CHR ''+'' then map_option ((#) (Plus (atom_of c))) (parse_pieces cs)
      else if q = CHR ''?'' then map_option ((#) (Opt (atom_of c))) (parse_pieces cs)
      else map_option ((#) (One (atom_of c))) (parse_pieces (q # cs)))"

fun atom_ok :: "atom \<Rightarrow> char \<Rightarrow> bool" where
  "atom_ok (Lit c) x = (to_lower c = to_lower x)"
| "atom_ok AnyChar x = (x \<noteq> CHR 0x0A \<and> x \<noteq> CHR 0x0D)"

text \<open>
  Whether the pieces match a prefix of the subject (all of it when the pattern ends in
  \<^verbatim>\<open>$\<close>), by backtracking.
\<close>

function match_here :: "piece list \<Rightarrow> bool \<Rightarrow> string \<Rightarrow> bool" where
  "match_here [] to_end s = (if to_end then s = [] else True)"
| "match_here (One a # ps) to_end [] = False"
| "match_here (One a # ps) to_end (x # xs) = (atom_ok a x \<and> match_here ps to_end xs)"
| "match_here (Opt a # ps) to_end [] = match_here ps to_end []"
| "match_here (Opt a # ps) to_end (x # xs) =
     (match_here ps to_end (x # xs) \<or> (atom_ok a x \<and> match_here ps to_end xs))"
| "match_here (Star a # ps) to_end [] = match_here ps to_end []"
| "match_here (Star a # ps) to_end (x # xs) =
     (match_here ps to_end (x # xs) \<or> (atom_ok a x \<and> match_here (Star a # ps) to_end xs))"
| "match_here (Plus a # ps) to_end [] = False"
| "match_here (Plus a # ps) to_end (x # xs) =
     (atom_ok a x \<and> match_here (Star a # ps) to_end xs)"
  by pat_completeness auto
termination
  by (relation "measure (\<lambda>(ps, e, s). 2 * length s + length ps)") auto

fun search_from :: "piece list \<Rightarrow> bool \<Rightarrow> string \<Rightarrow> bool" where
  "search_from ps to_end [] = match_here ps to_end []"
| "search_from ps to_end (x # xs) = (match_here ps to_end (x # xs) \<or> search_from ps to_end xs)"

definition regex_ref :: "string \<Rightarrow> (string \<Rightarrow> bool) option" where
  "regex_ref p =
     (let from_start = (p \<noteq> [] \<and> hd p = CHR ''^'');
          p1 = (if from_start then tl p else p);
          to_end = (p1 \<noteq> [] \<and> last p1 = CHR ''$'');
          p2 = (if to_end then butlast p1 else p1)
      in map_option
           (\<lambda>ps s. if from_start then match_here ps to_end s else search_from ps to_end s)
           (parse_pieces p2))"

text \<open>
  An instance of the library functions for running the routes on concrete inputs: the
  reference engine, and stand-ins for the address check, the URI check and the hash.
\<close>

definition test_libs :: libs where
  "test_libs =
     \<lparr>regex_i = regex_ref,
      is_email = (\<lambda>s. CHR ''@'' \<in> set s),
      is_uri = (\<lambda>s. CHR '':'' \<in> set s),
      hash_password = (\<lambda>p. CHR ''#'' # p),
      compare_password = (\<lambda>p h. h = CHR ''#'' # p)\<rparr>"

section \<open>Invariants, the spec's transition rule, and sample data\<close>

text \<open>
  The consistency of the RSVP list with its two counters (data model, section 3): each
  counter is the number of entries of its status, and no user has two entries.
\<close>

definition rsvp_inv :: "event \<Rightarrow> bool" where
  "rsvp_inv e =
     (attendees_going e = int (length (filter (\<lambda>r. rsvp_status r = ''going'') (rsvps e)))
      \<and> attendees_interested e =
          int (length (filter (\<lambda>r. rsvp_status r = ''interested'') (rsvps e)))
      \<and> distinct (map rsvp_user_id (rsvps e)))"

text \<open>
  The transition rule in the words of the spec (section 4.5), to compare the route with:
  the user's existing entry is removed and its counter counted down when its status was
  \<^verbatim>\<open>going\<close> or \<^verbatim>\<open>interested\<close>; then, when the new status is one of these two, a
  fresh entry is inserted and its counter counted up.
\<close>

definition rsvp_transition_spec :: "oid \<Rightarrow> string \<Rightarrow> event \<Rightarrow> event" where
  "rsvp_transition_spec uid st e =
     (let old = map_option rsvp_status (find (\<lambda>r. rsvp_user_id r = uid) (rsvps e));
          kept = filter (\<lambda>r. rsvp_user_id r \<noteq> uid) (rsvps e);
          inserted = (if st = ''going'' \<or> st = ''interested''
                      then [\<lparr>rsvp_user_id = uid, rsvp_status = st\<rparr>] else [])
      in e\<lparr>attendees_going :=
             attendees_going e - (if old = Some ''going'' then 1 else 0)
               + (if st = ''going'' then 1 else 0),
           attendees_interested :=
             attendees_interested e - (if old = Some ''interested'' then 1 else 0)
               + (if st = ''interested'' then 1 else 0),
           rsvps := kept @ inserted\<rparr>)"

definition is_rsvp_request :: "request \<Rightarrow> bool" where
  "is_rsvp_request r = (case r of PostRsvp b i v \<Rightarrow> True | _ \<Rightarrow> False)"

text \<open>An event as it is created: no entries, both counters at zero.\<close>

definition fresh_event :: "event \<Rightarrow> bool" where
  "fresh_event e = (rsvps e = [] \<and> attendees_going e = 0 \<and> attendees_interested e = 0)"

text \<open>A small database to run the routes on: two users, an administrator, one event.\<close>

definition alice :: user where
  "alice = \<lparr>user_id = 4, username = ''alice'', email = ''alice@example.com'',
     password = ''#secret1'', zipcode = ''12345'', isAdmin = False, lastLogin = None,
     createdAt = 0\<rparr>"

definition bob :: user where
  "bob = \<lparr>user_id = 2, username = ''bob'', email = ''bob@example.com'',
     password = ''#secret2'', zipcode = ''12345'', isAdmin = False, lastLogin = None,
     createdAt = 1\<rparr>"

definition root :: user where
  "root = \<lparr>user_id = 3, username = ''root'', email = ''root@example.com'',
     password = ''#secret3'', zipcode = ''12345'', isAdmin = True, lastLogin = None,
     createdAt = 2\<rparr>"

definition picnic :: event where
  "picnic = \<lparr>event_id = 10, title = ''Picnic'', description = ''In the park'',
     category = ''community'', date = ''2025-06-01'', time = ''noon'', location = ''Park'',
     contact_info = [], image_url = [], max_capacity = 0, tags = [],
     organizer = ''alice'', organizer_id = 4, attendees_going = 0, attendees_interested = 0,
     rsvps = [], favorites = [], comments = [], created_at = 5, updated_at = 5\<rparr>"

definition db0 :: db where
  "db0 = \<lparr>users = [alice, bob, root], events = [picnic], next_oid = 11\<rparr>"

text \<open>Two request bodies for an event: one with a title too short, one that is valid.\<close>

definition short_title :: event_body where
  "short_title =
     \<lparr>b_title = JStr ''ab'', b_description = JUndefined, b_category = JStr ''sports'',
      b_date = JStr ''2025-06-01'', b_time = JUndefined, b_location = JStr ''Park'',
      b_contact_info = JUndefined, b_image_url = JUndefined, b_max_capacity = JUndefined,
      b_tags = JUndefined\<rparr>"

definition good_body :: event_body where
  "good_body = short_title\<lparr>b_title := JStr ''Picnic again''\<rparr>"

definition is_comment_request :: "request \<Rightarrow> bool" where
  "is_comment_request r = (case r of PostComment b i v \<Rightarrow> True | _ \<Rightarrow> False)"

text \<open>
  The listing in the words of the spec (section 4.4), to compare the route with. A search
  text is plain when it has none of the characters that are special in a pattern;
  \<open>contains_ci\<close> is the case-insensitive substring test; an engine is a substring
  engine when on every plain pattern it accepts the pattern and tests exactly that. An
  empty parameter counts as not given, as the route skips it.
\<close>

definition plain :: "string \<Rightarrow> bool" where
  "plain p = list_all (\<lambda>c. \<not> is_meta c) p"

definition contains_ci :: "string \<Rightarrow> string \<Rightarrow> bool" where
  "contains_ci p s = sublist (toLowerCase p) (toLowerCase s)"

definition substring_engine :: "libs \<Rightarrow> bool" where
  "substring_engine L =
     (\<forall>p. plain p \<longrightarrow> (\<exists>m. regex_i L p = Some m \<and> (\<forall>s. m s = contains_ci p s)))"

definition listed :: "string option \<Rightarrow> string option \<Rightarrow> event \<Rightarrow> bool" where
  "listed cat search e =
     ((case cat of None \<Rightarrow> True | Some c \<Rightarrow> c = [] \<or> category e = c) \<and>
      (case search of
         None \<Rightarrow> True
       | Some p \<Rightarrow>
           p = [] \<or> contains_ci p (title e) \<or> contains_ci p (description e)
             \<or> contains_ci p (location e)))"

definition listing_order :: "event \<Rightarrow> event \<Rightarrow> bool" where
  "listing_order a b =
     (date a < date b \<or> (date a = date b \<and> created_at b \<le> created_at a))"

text \<open>Two registrations whose usernames differ only by case.\<close>

definition plus_lower :: register_body where
  "plus_lower =
     \<lparr>rb_username = JStr ''a+b'', rb_email = JStr ''first@example.com'',
      rb_password = JStr ''secret'', rb_zipcode = JStr ''12345''\<rparr>"

definition plus_upper :: register_body where
  "plus_upper =
     \<lparr>rb_username = JStr ''A+B'', rb_email = JStr ''second@example.com'',
      rb_password = JStr ''secret'', rb_zipcode = JStr ''12345''\<rparr>"

section \<open>Properties\<close>

subsection \<open>The sample data\<close>

lemmas test_data = db0_def picnic_def alice_def bob_def root_def

lemma auth_db0 [simp]:
  "auth (users db0) (GoodToken 4) = Inr alice"
  "auth (users db0) (GoodToken 2) = Inr bob"
  "auth (users db0) (GoodToken 3) = Inr root"
  "auth (users db0) NoToken = Inl (401, AuthRejected)"
  by (simp_all add: auth_def test_data)

lemma findById_db0 [simp]: "findById 10 (events db0) = Some picnic"
  by (simp add: findById_def test_data)

subsection \<open>Arrays and collections\<close>

lemma findIndex_None: "findIndex P xs = None \<longleftrightarrow> (\<forall>x\<in>set xs. \<not> P x)"
  by (induction xs) auto

lemma findIndex_Some:
  "findIndex P xs = Some i \<Longrightarrow> i < length xs \<and> P (xs ! i) \<and> find P xs = Some (xs ! i)"
  by (induction xs arbitrary: i) (auto split: if_splits)

lemma findIndex_find_None: "findIndex P xs = None \<longleftrightarrow> find P xs = None"
  by (induction xs) auto

lemma splice1_findIndex: "findIndex P xs = Some i \<Longrightarrow> splice1 i xs = delete_first P xs"
  by (induction xs arbitrary: i) (auto simp: splice1_def split: if_splits)

lemma delete_first_absent: "\<forall>x\<in>set xs. \<not> P x \<Longrightarrow> delete_first P xs = xs"
  by (induction xs) auto

lemma delete_first_filter_key:
  "distinct (map f xs) \<Longrightarrow> delete_first (\<lambda>x. f x = k) xs = filter (\<lambda>x. f x \<noteq> k) xs"
proof (induction xs)
  case Nil
  then show ?case by simp
next
  case (Cons x xs)
  show ?case
  proof (cases "f x = k")
    case True
    from Cons.prems have "f x \<notin> f ` set xs" by simp
    then have "\<forall>y\<in>set xs. f y \<noteq> f x" by (metis imageI)
    with True have "\<forall>y\<in>set xs. f y \<noteq> k" by simp
    then have "filter (\<lambda>x. f x \<noteq> k) xs = xs" by (simp add: filter_id_conv)
    with True show ?thesis by simp
  next
    case False
    with Cons show ?thesis by simp
  qed
qed

lemma count_delete_first:
  "find P xs = Some y \<Longrightarrow>
   int (length (filter Q (delete_first P xs))) = int (length (filter Q xs)) - (if Q y then 1 else 0)"
  by (induction xs) (auto split: if_splits)

subsection \<open>The RSVP transition\<close>

lemma rsvp_remove_eq:
  "rsvp_remove uid e =
     (case find (\<lambda>r. rsvp_user_id r = uid) (rsvps e) of
        None \<Rightarrow> e
      | Some r \<Rightarrow>
          e\<lparr>attendees_going := attendees_going e - (if rsvp_status r = ''going'' then 1 else 0),
            attendees_interested :=
              attendees_interested e - (if rsvp_status r = ''interested'' then 1 else 0),
            rsvps := delete_first (\<lambda>r. rsvp_user_id r = uid) (rsvps e)\<rparr>)"
proof (cases "findIndex (\<lambda>r. rsvp_user_id r = uid) (rsvps e)")
  case None
  then have "find (\<lambda>r. rsvp_user_id r = uid) (rsvps e) = None"
    by (simp add: findIndex_find_None)
  with None show ?thesis by (simp add: rsvp_remove_def)
next
  case (Some i)
  from findIndex_Some[OF Some] splice1_findIndex[OF Some] show ?thesis
    by (simp add: rsvp_remove_def Some Let_def)
qed

lemma filter_find_None: "find P xs = None \<Longrightarrow> filter (\<lambda>x. \<not> P x) xs = xs"
  by (induction xs) (auto split: if_splits)

lemma rsvp_update_spec:
  assumes "distinct (map rsvp_user_id (rsvps e))"
    and "st \<in> set [''going'', ''interested'', ''not_going'', []]"
  shows "rsvp_update uid (JStr st) e = rsvp_transition_spec uid st e"
proof -
  have del: "delete_first (\<lambda>r. rsvp_user_id r = uid) (rsvps e) =
             filter (\<lambda>r. rsvp_user_id r \<noteq> uid) (rsvps e)"
    using assms(1) by (rule delete_first_filter_key)
  from assms(2) consider "st = ''going''" | "st = ''interested''" | "st = ''not_going''" | "st = []"
    by auto
  then show ?thesis
  proof cases
    case 1
    then show ?thesis
      by (cases "find (\<lambda>r. rsvp_user_id r = uid) (rsvps e)")
        (simp_all add: rsvp_update_def rsvp_add_def rsvp_remove_eq rsvp_transition_spec_def del filter_find_None)
  next
    case 2
    then show ?thesis
      by (cases "find (\<lambda>r. rsvp_user_id r = uid) (rsvps e)")
        (simp_all add: rsvp_update_def rsvp_add_def rsvp_remove_eq rsvp_transition_spec_def del filter_find_None)
  next
    case 3
    then show ?thesis
      by (cases "find (\<lambda>r. rsvp_user_id r = uid) (rsvps e)")
        (simp_all add: rsvp_update_def rsvp_add_def rsvp_remove_eq rsvp_transition_spec_def del filter_find_None)
  next
    case 4
    then show ?thesis
      by (cases "find (\<lambda>r. rsvp_user_id r = uid) (rsvps e)")
        (simp_all add: rsvp_update_def rsvp_add_def rsvp_remove_eq rsvp_transition_spec_def del filter_find_None)
  qed
qed

lemma rsvp_spec_inv:
  assumes "rsvp_inv e" and "st \<in> set [''going'', ''interested'', ''not_going'', []]"
  shows "rsvp_inv (rsvp_transition_spec uid st e)"
proof -
  let ?P = "\<lambda>r. rsvp_user_id r = uid"
  let ?kept = "filter (\<lambda>r. rsvp_user_id r \<noteq> uid) (rsvps e)"
  let ?G = "\<lambda>r. rsvp_status r = ''going''"
  let ?I = "\<lambda>r. rsvp_status r = ''interested''"
  from assms(1) have d: "distinct (map rsvp_user_id (rsvps e))"
    and g: "attendees_going e = int (length (filter ?G (rsvps e)))"
    and i: "attendees_interested e = int (length (filter ?I (rsvps e)))"
    by (simp_all add: rsvp_inv_def)
  have kept: "?kept = delete_first ?P (rsvps e)"
    using d by (simp add: delete_first_filter_key)
  have dk: "distinct (map rsvp_user_id ?kept)"
    using d by (simp add: distinct_map_filter)
  have nk: "uid \<notin> rsvp_user_id ` set ?kept"
    by auto
  have cg: "int (length (filter ?G ?kept)) =
            attendees_going e -
              (if map_option rsvp_status (find ?P (rsvps e)) = Some ''going'' then 1 else 0)"
  proof (cases "find ?P (rsvps e)")
    case None
    then show ?thesis by (simp add: filter_find_None g)
  next
    case (Some r)
    from count_delete_first[OF Some, of ?G] show ?thesis by (simp add: kept Some g)
  qed
  have ci: "int (length (filter ?I ?kept)) =
            attendees_interested e -
              (if map_option rsvp_status (find ?P (rsvps e)) = Some ''interested'' then 1 else 0)"
  proof (cases "find ?P (rsvps e)")
    case None
    then show ?thesis by (simp add: filter_find_None i)
  next
    case (Some r)
    from count_delete_first[OF Some, of ?I] show ?thesis by (simp add: kept Some i)
  qed
  from assms(2) consider "st = ''going''" | "st = ''interested''" | "st = ''not_going''" | "st = []"
    by auto
  then show ?thesis
  proof cases
    case 1
    with dk nk cg ci show ?thesis
      by (simp add: rsvp_inv_def rsvp_transition_spec_def)
  next
    case 2
    with dk nk cg ci show ?thesis
      by (simp add: rsvp_inv_def rsvp_transition_spec_def)
  next
    case 3
    with dk nk cg ci show ?thesis
      by (simp add: rsvp_inv_def rsvp_transition_spec_def)
  next
    case 4
    with dk nk cg ci show ?thesis
      by (simp add: rsvp_inv_def rsvp_transition_spec_def)
  qed
qed

lemma rsvp_update_inv:
  assumes "rsvp_inv e" and "valid_rsvp_status v"
  shows "rsvp_inv (rsvp_update uid v e)"
proof -
  from assms(2) obtain st where v: "v = JStr st"
    and st: "st \<in> set [''going'', ''interested'', ''not_going'', []]"
    by (auto simp: valid_rsvp_status_def)
  from assms(1) have "distinct (map rsvp_user_id (rsvps e))" by (simp add: rsvp_inv_def)
  then have "rsvp_update uid v e = rsvp_transition_spec uid st e"
    unfolding v using st by (rule rsvp_update_spec)
  with rsvp_spec_inv[OF assms(1) st] show ?thesis by simp
qed

lemma findById_event_id: "findById i es = Some e \<Longrightarrow> event_id e = i"
  unfolding findById_def by (induction es) (auto split: if_splits)

lemma findById_replace_first:
  "event_id e' = j \<Longrightarrow> findById j es \<noteq> None \<Longrightarrow>
   findById i (replace_first (\<lambda>x. event_id x = j) e' es) =
     (if i = j then Some e' else findById i es)"
  unfolding findById_def by (induction es) (auto split: if_splits)

lemma rsvp_update_event_id: "event_id (rsvp_update uid v e) = event_id e"
  by (cases "find (\<lambda>r. rsvp_user_id r = uid) (rsvps e)")
    (simp_all add: rsvp_update_def rsvp_add_def rsvp_remove_eq Let_def)

lemma findById_save_event:
  "findById (event_id e') (events d) \<noteq> None \<Longrightarrow>
   findById i (events (save_event e' d)) =
     (if i = event_id e' then Some e' else findById i (events d))"
  by (simp add: save_event_def findById_replace_first)

lemma post_rsvp_keeps_inv:
  assumes "findById i (events d) = Some e" and "rsvp_inv e"
  shows "\<exists>e'. findById i (events (snd (post_rsvp b j v d))) = Some e' \<and> rsvp_inv e'"
proof (cases "auth (users d) b")
  case (Inl r)
  with assms show ?thesis by (simp add: post_rsvp_def)
next
  case (Inr u)
  show ?thesis
  proof (cases "valid_rsvp_status v")
    case False
    with Inr assms show ?thesis by (simp add: post_rsvp_def)
  next
    case True
    show ?thesis
    proof (cases "findById j (events d)")
      case None
      with Inr True assms show ?thesis by (simp add: post_rsvp_def)
    next
      case (Some ej)
      let ?e' = "rsvp_update (user_id u) v ej"
      have id: "event_id ?e' = j"
        using findById_event_id[OF Some] by (simp add: rsvp_update_event_id)
      have d': "snd (post_rsvp b j v d) = save_event ?e' d"
        using Inr True Some by (simp add: post_rsvp_def Let_def)
      have look: "findById i (events (save_event ?e' d)) =
                  (if i = j then Some ?e' else findById i (events d))"
        using findById_save_event[of ?e' d i] Some id by simp
      show ?thesis
      proof (cases "i = j")
        case True
        with assms Some have "ej = e" by simp
        with assms(2) True have "rsvp_inv ?e'"
          using rsvp_update_inv[OF _ \<open>valid_rsvp_status v\<close>] by simp
        with look True d' show ?thesis by simp
      next
        case False
        with look d' assms show ?thesis by simp
      qed
    qed
  qed
qed

lemma run_rsvp_keeps_inv:
  assumes "list_all (\<lambda>r. is_rsvp_request (snd r)) rs"
    and "findById i (events d) = Some e" and "rsvp_inv e"
  shows "\<exists>e'. findById i (events (run L d rs)) = Some e' \<and> rsvp_inv e'"
  using assms
proof (induction rs arbitrary: d e)
  case Nil
  then show ?case by simp
next
  case (Cons r rs)
  from Cons.prems(1) obtain b j v where r: "snd r = PostRsvp b j v"
    by (auto simp: is_rsvp_request_def split: request.splits)
  from post_rsvp_keeps_inv[OF Cons.prems(2,3)]
  obtain e1 where e1: "findById i (events (snd (post_rsvp b j v d))) = Some e1" "rsvp_inv e1"
    by blast
  from Cons.prems(1) have "list_all (\<lambda>r. is_rsvp_request (snd r)) rs" by simp
  from Cons.IH[OF this e1] show ?case by (simp add: r)
qed

lemma fresh_event_inv: "fresh_event e \<Longrightarrow> rsvp_inv e"
  by (simp add: fresh_event_def rsvp_inv_def)

lemma new_Event_fresh: "fresh_event (new_Event i now b u)"
  by (simp add: new_Event_def assign_body_def fresh_event_def)

text \<open>
  C3. Start from an event with no RSVP entries and both counters at zero, and let any
  finite sequence of \<^verbatim>\<open>POST /events/:id/rsvp\<close> requests run, whoever sends them
  (pairwise distinct users in particular) and whatever they carry. Afterwards the event is
  still stored, \<open>attendees_going\<close> is the number of entries with status
  \<^verbatim>\<open>going\<close>, \<open>attendees_interested\<close> the number with status \<^verbatim>\<open>interested\<close>, and
  no user has more than one entry.
\<close>

theorem rsvp_counters_consistent:
  assumes "findById i (events d) = Some e" and "fresh_event e"
    and "list_all (\<lambda>r. is_rsvp_request (snd r)) rs"
  shows "\<exists>e'. findById i (events (run L d rs)) = Some e'
           \<and> attendees_going e' =
               int (length (filter (\<lambda>r. rsvp_status r = ''going'') (rsvps e')))
           \<and> attendees_interested e' =
               int (length (filter (\<lambda>r. rsvp_status r = ''interested'') (rsvps e')))
           \<and> distinct (map rsvp_user_id (rsvps e'))"
  using run_rsvp_keeps_inv[OF assms(3) assms(1) fresh_event_inv[OF assms(2)]]
  by (simp add: rsvp_inv_def)

theorem rsvp_counters_consistent_witness:
  "findById 10 (events db0) = Some picnic \<and> fresh_event picnic
   \<and> list_all (\<lambda>r. is_rsvp_request (snd r))
        [(6, PostRsvp (GoodToken 4) 10 (JStr ''going'')),
         (7, PostRsvp (GoodToken 2) 10 (JStr ''interested'')),
         (8, PostRsvp (GoodToken 4) 10 (JStr ''not_going''))]
   \<and> (\<exists>e'. findById 10 (events (run test_libs db0
               [(6, PostRsvp (GoodToken 4) 10 (JStr ''going'')),
                (7, PostRsvp (GoodToken 2) 10 (JStr ''interested'')),
                (8, PostRsvp (GoodToken 4) 10 (JStr ''not_going''))])) = Some e'
           \<and> attendees_going e' =
               int (length (filter (\<lambda>r. rsvp_status r = ''going'') (rsvps e')))
           \<and> attendees_interested e' =
               int (length (filter (\<lambda>r. rsvp_status r = ''interested'') (rsvps e')))
           \<and> distinct (map rsvp_user_id (rsvps e')))"
proof -
  have h1: "findById 10 (events db0) = Some picnic" by simp
  have h2: "fresh_event picnic" by (simp add: fresh_event_def picnic_def)
  have h3: "list_all (\<lambda>r. is_rsvp_request (snd r))
        [(6, PostRsvp (GoodToken 4) 10 (JStr ''going'')),
         (7, PostRsvp (GoodToken 2) 10 (JStr ''interested'')),
         (8, PostRsvp (GoodToken 4) 10 (JStr ''not_going''))]"
    by (simp add: is_rsvp_request_def)
  from rsvp_counters_consistent[OF h1 h2 h3, of test_libs] h1 h2 h3 show ?thesis by blast
qed

lemma rsvp_spec_entries:
  "filter (\<lambda>r. rsvp_user_id r = uid) (rsvps (rsvp_transition_spec uid st e)) =
     (if st = ''going'' \<or> st = ''interested''
      then [\<lparr>rsvp_user_id = uid, rsvp_status = st\<rparr>] else [])"
  by (simp add: rsvp_transition_spec_def)

text \<open>
  C4. For an authenticated user and a stored event with at most one entry per user, a
  request with one of the four accepted statuses answers 200 and stores exactly what the
  spec's transition rule yields: the user's old entry is gone and its counter counted
  down, and exactly for \<^verbatim>\<open>going\<close> and \<^verbatim>\<open>interested\<close> one new entry is there and
  its counter counted up, so that \<^verbatim>\<open>not_going\<close> and the empty status leave the user
  without an entry. Any other value is answered with 400 and nothing is stored.
\<close>

theorem rsvp_follows_transition_rule:
  assumes "auth (users d) b = Inr u" and "findById i (events d) = Some e"
    and "distinct (map rsvp_user_id (rsvps e))"
  shows "(st \<in> set [''going'', ''interested'', ''not_going'', []] \<longrightarrow>
            handle L now d (PostRsvp b i (JStr st)) =
              ((200, RsvpResult i (JStr st)),
               save_event (rsvp_transition_spec (user_id u) st e) d)
            \<and> filter (\<lambda>r. rsvp_user_id r = user_id u)
                 (rsvps (rsvp_transition_spec (user_id u) st e)) =
               (if st = ''going'' \<or> st = ''interested''
                then [\<lparr>rsvp_user_id = user_id u, rsvp_status = st\<rparr>] else []))
       \<and> (v \<notin> set [JStr ''going'', JStr ''interested'', JStr ''not_going'', JStr []] \<longrightarrow>
            handle L now d (PostRsvp b i v) = ((400, Message ''Invalid RSVP status''), d))"
proof (intro conjI impI)
  assume st: "st \<in> set [''going'', ''interested'', ''not_going'', []]"
  then have valid: "valid_rsvp_status (JStr st)" by (auto simp: valid_rsvp_status_def)
  have upd: "rsvp_update (user_id u) (JStr st) e = rsvp_transition_spec (user_id u) st e"
    using assms(3) st by (rule rsvp_update_spec)
  have "event_id (rsvp_update (user_id u) (JStr st) e) = i"
    using findById_event_id[OF assms(2)] by (simp add: rsvp_update_event_id)
  with upd have id: "event_id (rsvp_transition_spec (user_id u) st e) = i" by simp
  show "handle L now d (PostRsvp b i (JStr st)) =
          ((200, RsvpResult i (JStr st)), save_event (rsvp_transition_spec (user_id u) st e) d)"
    using assms(1,2) valid upd id by (simp add: post_rsvp_def Let_def)
  show "filter (\<lambda>r. rsvp_user_id r = user_id u)
          (rsvps (rsvp_transition_spec (user_id u) st e)) =
        (if st = ''going'' \<or> st = ''interested''
         then [\<lparr>rsvp_user_id = user_id u, rsvp_status = st\<rparr>] else [])"
    by (rule rsvp_spec_entries)
next
  assume "v \<notin> set [JStr ''going'', JStr ''interested'', JStr ''not_going'', JStr []]"
  then have "\<not> valid_rsvp_status v" by (simp add: valid_rsvp_status_def)
  with assms(1) show "handle L now d (PostRsvp b i v) = ((400, Message ''Invalid RSVP status''), d)"
    by (simp add: post_rsvp_def)
qed

theorem rsvp_follows_transition_rule_witness:
  "auth (users db0) (GoodToken 2) = Inr bob \<and> findById 10 (events db0) = Some picnic
   \<and> distinct (map rsvp_user_id (rsvps picnic))
   \<and> handle test_libs 6 db0 (PostRsvp (GoodToken 2) 10 (JStr ''going'')) =
       ((200, RsvpResult 10 (JStr ''going'')),
        db0\<lparr>events := [picnic\<lparr>attendees_going := 1,
                 rsvps := [\<lparr>rsvp_user_id = 2, rsvp_status = ''going''\<rparr>]\<rparr>]\<rparr>)
   \<and> handle test_libs 6 db0 (PostRsvp (GoodToken 2) 10 (JStr ''maybe'')) =
       ((400, Message ''Invalid RSVP status''), db0)"
proof -
  have h1: "auth (users db0) (GoodToken 2) = Inr bob" by simp
  have h2: "findById 10 (events db0) = Some picnic" by simp
  have h3: "distinct (map rsvp_user_id (rsvps picnic))" by (simp add: picnic_def)
  have spec: "save_event (rsvp_transition_spec (user_id bob) ''going'' picnic) db0 =
        db0\<lparr>events := [picnic\<lparr>attendees_going := 1,
                 rsvps := [\<lparr>rsvp_user_id = 2, rsvp_status = ''going''\<rparr>]\<rparr>]\<rparr>"
    by (simp add: rsvp_transition_spec_def save_event_def test_data)
  from rsvp_follows_transition_rule[OF h1 h2 h3, where st = "''going''" and v = "JStr ''maybe''"
      and L = test_libs and now = 6]
  show ?thesis using h1 h2 h3 spec by simp
qed

subsection \<open>Favorites\<close>

lemma favorite_update_eq:
  "favorites (favorite_update uid v e) =
     (if truthy v then (if uid \<in> set (favorites e) then favorites e else favorites e @ [uid])
      else delete_first (\<lambda>f. f = uid) (favorites e))"
proof (cases "findIndex (\<lambda>f. f = uid) (favorites e)")
  case None
  then have notin: "uid \<notin> set (favorites e)" by (auto simp: findIndex_None)
  then have "delete_first (\<lambda>f. f = uid) (favorites e) = favorites e"
    by (intro delete_first_absent) auto
  with None notin show ?thesis by (simp add: favorite_update_def)
next
  case (Some k)
  from findIndex_Some[OF Some] have "uid \<in> set (favorites e)" by (metis nth_mem)
  with Some splice1_findIndex[OF Some] show ?thesis by (simp add: favorite_update_def)
qed

lemma favorite_update_other:
  "favorite_update uid v e = e\<lparr>favorites := favorites (favorite_update uid v e)\<rparr>"
  by (simp add: favorite_update_def Let_def)

lemma favorite_update_event_id: "event_id (favorite_update uid v e) = event_id e"
  by (simp add: favorite_update_def Let_def)

lemma post_favorite_result:
  assumes "auth (users d) b = Inr u" and "findById i (events d) = Some e"
  shows "post_favorite b i v d =
           ((200, FavoriteResult i v), save_event (favorite_update (user_id u) v e) d)"
  using assms findById_event_id[OF assms(2)]
  by (simp add: post_favorite_def Let_def favorite_update_event_id)

lemma delete_first_distinct:
  "distinct xs \<Longrightarrow> delete_first (\<lambda>f. f = k) xs = filter (\<lambda>f. f \<noteq> k) xs"
  using delete_first_filter_key[of "\<lambda>x. x" xs k] by simp

text \<open>
  C5. For an authenticated user and a stored event whose favorites hold no user twice,
  the favorite request is a set-membership update: asking to favorite when the user is
  already in the list, or to unfavorite when the user is not, leaves the list as it is;
  in every case the stored list afterwards contains the user exactly when the request
  asked to favorite, holds the other users as before, and has no duplicates.
\<close>

theorem favorite_idempotent_set_update:
  assumes "auth (users d) b = Inr u" and "findById i (events d) = Some e"
    and "distinct (favorites e)"
  shows "\<exists>e'. findById i (events (snd (handle L now d (PostFavorite b i v)))) = Some e'
           \<and> (truthy v \<and> user_id u \<in> set (favorites e) \<longrightarrow> favorites e' = favorites e)
           \<and> (\<not> truthy v \<and> user_id u \<notin> set (favorites e) \<longrightarrow> favorites e' = favorites e)
           \<and> (user_id u \<in> set (favorites e') \<longleftrightarrow> truthy v)
           \<and> set (favorites e') - {user_id u} = set (favorites e) - {user_id u}
           \<and> distinct (favorites e')"
proof -
  let ?e' = "favorite_update (user_id u) v e"
  have id: "event_id ?e' = i"
    using findById_event_id[OF assms(2)] by (simp add: favorite_update_event_id)
  have "findById i (events (save_event ?e' d)) = Some ?e'"
    using findById_save_event[of ?e' d i] assms(2) id by simp
  then have stored: "findById i (events (snd (handle L now d (PostFavorite b i v)))) = Some ?e'"
    by (simp add: post_favorite_result[OF assms(1,2)])
  have favs: "favorites ?e' =
     (if truthy v
      then (if user_id u \<in> set (favorites e) then favorites e else favorites e @ [user_id u])
      else filter (\<lambda>f. f \<noteq> user_id u) (favorites e))"
    by (simp add: favorite_update_eq delete_first_distinct[OF assms(3)])
  have same: "\<not> truthy v \<and> user_id u \<notin> set (favorites e) \<longrightarrow> favorites ?e' = favorites e"
    by (auto simp: favs filter_id_conv)
  have "(truthy v \<and> user_id u \<in> set (favorites e) \<longrightarrow> favorites ?e' = favorites e)
      \<and> (user_id u \<in> set (favorites ?e') \<longleftrightarrow> truthy v)
      \<and> set (favorites ?e') - {user_id u} = set (favorites e) - {user_id u}
      \<and> distinct (favorites ?e')"
    using assms(3) by (auto simp: favs)
  with stored same show ?thesis by blast
qed

theorem favorite_idempotent_set_update_witness:
  "auth (users db0) (GoodToken 2) = Inr bob \<and> findById 10 (events db0) = Some picnic
   \<and> distinct (favorites picnic)
   \<and> (\<exists>e'. findById 10 (events (snd (handle test_libs 6 db0
                (PostFavorite (GoodToken 2) 10 (JBool True))))) = Some e'
           \<and> (user_id bob \<in> set (favorites e') \<longleftrightarrow> truthy (JBool True))
           \<and> distinct (favorites e'))"
proof -
  have h1: "auth (users db0) (GoodToken 2) = Inr bob" by simp
  have h2: "findById 10 (events db0) = Some picnic" by simp
  have h3: "distinct (favorites picnic)" by (simp add: picnic_def)
  from favorite_idempotent_set_update[OF h1 h2 h3, where v = "JBool True" and L = test_libs
      and now = 6]
  show ?thesis using h1 h2 h3 by blast
qed

text \<open>
  C10. An authenticated favorite request on a stored event is never refused as invalid:
  whatever value \<^verbatim>\<open>is_favorited\<close> has, absent included, the answer is 200. A truthy
  value adds the user to the favorites unless already there, a falsy one removes the
  user's entry if there is one, and the response carries the request's value as it came,
  not the stored membership.
\<close>

theorem favorite_truthiness_and_echo:
  assumes "auth (users d) b = Inr u" and "findById i (events d) = Some e"
  shows "handle L now d (PostFavorite b i v) =
           ((200, FavoriteResult i v),
            save_event
              (e\<lparr>favorites :=
                   (if truthy v
                    then (if user_id u \<in> set (favorites e) then favorites e
                          else favorites e @ [user_id u])
                    else delete_first (\<lambda>f. f = user_id u) (favorites e))\<rparr>) d)"
proof -
  have "favorite_update (user_id u) v e =
          e\<lparr>favorites := favorites (favorite_update (user_id u) v e)\<rparr>"
    by (rule favorite_update_other)
  then show ?thesis
    by (simp add: post_favorite_result[OF assms] favorite_update_eq)
qed

theorem favorite_truthiness_and_echo_witness:
  "auth (users db0) (GoodToken 2) = Inr bob \<and> findById 10 (events db0) = Some picnic
   \<and> handle test_libs 6 db0 (PostFavorite (GoodToken 2) 10 (JStr ''no'')) =
       ((200, FavoriteResult 10 (JStr ''no'')), db0\<lparr>events := [picnic\<lparr>favorites := [2]\<rparr>]\<rparr>)"
proof -
  have h1: "auth (users db0) (GoodToken 2) = Inr bob" by simp
  have h2: "findById 10 (events db0) = Some picnic" by simp
  have s: "save_event (picnic\<lparr>favorites := [2]\<rparr>) db0 = db0\<lparr>events := [picnic\<lparr>favorites := [2]\<rparr>]\<rparr>"
    by (simp add: save_event_def test_data)
  from favorite_truthiness_and_echo[OF h1 h2, where v = "JStr ''no''" and L = test_libs
      and now = 6]
  show ?thesis using h1 h2 s by (simp add: picnic_def bob_def)
qed

subsection \<open>Login\<close>

text \<open>
  C7. Take two login requests that pass validation: one whose normalized email belongs to
  no user, and one whose email belongs to a user but whose password does not compare
  with the stored hash. Both get the same response, status 401 with the same message, and
  neither changes the database, so the response does not tell the two causes apart.
\<close>

theorem login_failure_uniform:
  assumes "loginSchema_validate L b1 = None" and "loginSchema_validate L b2 = None"
    and "find (\<lambda>u. email u = trim (toLowerCase (str_of (lb_email b1)))) (users d) = None"
    and "find (\<lambda>u. email u = trim (toLowerCase (str_of (lb_email b2)))) (users d) = Some u"
    and "\<not> compare_password L (str_of (lb_password b2)) (password u)"
  shows "handle L t1 d (Login b1) = handle L t2 d (Login b2)
       \<and> handle L t1 d (Login b1) =
           ((401, Message (''Invalid email or password. '' @
               ''Please check your credentials and try again.'')), d)"
  using assms by (simp add: login_def invalid_credentials_def Let_def)


lemma toLowerCase_test:
  "toLowerCase ''Nobody@Example.com'' = ''nobody@example.com''"
  "toLowerCase ''Alice@Example.com'' = ''alice@example.com''"
  by (simp_all add: toLowerCase_def to_lower_def)

lemma trim_test:
  "trim ''nobody@example.com'' = ''nobody@example.com''"
  "trim ''alice@example.com'' = ''alice@example.com''"
  by (simp_all add: trim_def is_space_def)

theorem login_failure_uniform_witness:
  "loginSchema_validate test_libs
     \<lparr>lb_email = JStr ''Nobody@Example.com'', lb_password = JStr ''secret1''\<rparr> = None
   \<and> loginSchema_validate test_libs
     \<lparr>lb_email = JStr ''Alice@Example.com'', lb_password = JStr ''wrong''\<rparr> = None
   \<and> find (\<lambda>u. email u = ''nobody@example.com'') (users db0) = None
   \<and> find (\<lambda>u. email u = ''alice@example.com'') (users db0) = Some alice
   \<and> \<not> compare_password test_libs ''wrong'' (password alice)
   \<and> handle test_libs 8 db0
        (Login \<lparr>lb_email = JStr ''Nobody@Example.com'', lb_password = JStr ''secret1''\<rparr>) =
       handle test_libs 9 db0
        (Login \<lparr>lb_email = JStr ''Alice@Example.com'', lb_password = JStr ''wrong''\<rparr>)"
proof -
  let ?b1 = "\<lparr>lb_email = JStr ''Nobody@Example.com'', lb_password = JStr ''secret1''\<rparr>"
  let ?b2 = "\<lparr>lb_email = JStr ''Alice@Example.com'', lb_password = JStr ''wrong''\<rparr>"
  have h1: "loginSchema_validate test_libs ?b1 = None"
    by (simp add: loginSchema_validate_def test_libs_def)
  have h2: "loginSchema_validate test_libs ?b2 = None"
    by (simp add: loginSchema_validate_def test_libs_def)
  have f1: "find (\<lambda>u. email u = ''nobody@example.com'') (users db0) = None"
    by (simp add: test_data)
  have f2: "find (\<lambda>u. email u = ''alice@example.com'') (users db0) = Some alice"
    by (simp add: test_data)
  have h3: "find (\<lambda>u. email u = trim (toLowerCase (str_of (lb_email ?b1)))) (users db0) = None"
    using f1 by (simp add: toLowerCase_test trim_test)
  have h4: "find (\<lambda>u. email u = trim (toLowerCase (str_of (lb_email ?b2)))) (users db0) =
            Some alice"
    using f2 by (simp add: toLowerCase_test trim_test)
  have c: "\<not> compare_password test_libs ''wrong'' (password alice)"
    by (simp add: test_libs_def alice_def)
  then have h5: "\<not> compare_password test_libs (str_of (lb_password ?b2)) (password alice)"
    by simp
  from login_failure_uniform[OF h1 h2 h3 h4 h5, of 8 9]
  show ?thesis using h1 h2 f1 f2 c by simp
qed

subsection \<open>Organizer-only update and delete\<close>

lemma validate_short_title:
  "eventSchema_validate L short_title = Some (Default ''title'' ''string.min'')"
  by (simp add: eventSchema_validate_def short_title_def str_min_def str_max_def)

lemma validate_good_body: "eventSchema_validate L good_body = None"
  by (simp add: eventSchema_validate_def good_body_def short_title_def str_min_def str_max_def
      joi_category_def categories_def date_pattern_def is_digit_def joi_max_capacity_def
      joi_tags_def)

text \<open>
  The update route validates the body before it loads the event and compares the
  organizer. A user who is not the organizer and sends an invalid body to a stored event
  gets 400, not 403.
\<close>

theorem non_organizer_put_counterexample:
  "auth (users db0) (GoodToken 2) = Inr bob \<and> findById 10 (events db0) = Some picnic
   \<and> user_id bob \<noteq> organizer_id picnic
   \<and> fst (handle test_libs 6 db0 (PutEvent (GoodToken 2) 10 short_title)) =
       (400, ValidationMessage (Default ''title'' ''string.min''))"
  by (simp add: put_event_def validate_short_title) (simp add: bob_def picnic_def)

text \<open>
  C2, as amended. For an authenticated user who is not the organizer of a stored event,
  the delete request is answered with 403, and the update request is answered with 403
  when its body passes validation and with 400 and the validation message when it does
  not; in each case nothing is changed.
\<close>

theorem non_organizer_rejected:
  assumes "auth (users d) b = Inr u" and "findById i (events d) = Some e"
    and "user_id u \<noteq> organizer_id e"
  shows "handle L now d (DeleteEvent b i) =
           ((403, Message ''You can only delete your own events''), d)
       \<and> handle L now d (PutEvent b i bd) =
           (case eventSchema_validate L bd of
              None \<Rightarrow> ((403, Message ''You can only edit your own events''), d)
            | Some err \<Rightarrow> ((400, ValidationMessage err), d))"
  using assms by (auto simp: delete_event_def put_event_def split: option.splits)

theorem non_organizer_rejected_witness:
  "auth (users db0) (GoodToken 2) = Inr bob \<and> findById 10 (events db0) = Some picnic
   \<and> user_id bob \<noteq> organizer_id picnic
   \<and> handle test_libs 6 db0 (DeleteEvent (GoodToken 2) 10) =
       ((403, Message ''You can only delete your own events''), db0)
   \<and> handle test_libs 6 db0 (PutEvent (GoodToken 2) 10 good_body) =
       ((403, Message ''You can only edit your own events''), db0)"
proof -
  have h1: "auth (users db0) (GoodToken 2) = Inr bob" by simp
  have h2: "findById 10 (events db0) = Some picnic" by simp
  have h3: "user_id bob \<noteq> organizer_id picnic" by (simp add: bob_def picnic_def)
  from non_organizer_rejected[OF h1 h2 h3, where L = test_libs and now = 6 and bd = good_body]
  show ?thesis using h1 h2 h3 by (simp add: validate_good_body)
qed

subsection \<open>Who removes an event\<close>

lemma map_event_id_replace_first:
  "event_id e' = j \<Longrightarrow> map event_id (replace_first (\<lambda>x. event_id x = j) e' es) = map event_id es"
  by (induction es) auto

lemma ids_save_event: "event_id ` set (events (save_event e' d)) = event_id ` set (events d)"
proof -
  have "map event_id (events (save_event e' d)) = map event_id (events d)"
    by (simp add: save_event_def map_event_id_replace_first)
  then have "set (map event_id (events (save_event e' d))) = set (map event_id (events d))"
    by simp
  then show ?thesis by (simp only: set_map)
qed

lemma ids_post_event:
  "event_id ` set (events d) \<subseteq> event_id ` set (events (snd (post_event L now b bd d)))"
  by (auto simp: post_event_def Let_def split: sum.splits option.splits)

lemma ids_put_event:
  "event_id ` set (events (snd (put_event L now b i bd d))) = event_id ` set (events d)"
  by (simp add: put_event_def Let_def ids_save_event split: sum.splits option.splits)

lemma ids_post_rsvp:
  "event_id ` set (events (snd (post_rsvp b i v d))) = event_id ` set (events d)"
  by (simp add: post_rsvp_def Let_def ids_save_event split: sum.splits option.splits)

lemma ids_post_favorite:
  "event_id ` set (events (snd (post_favorite b i v d))) = event_id ` set (events d)"
  by (simp add: post_favorite_def Let_def ids_save_event split: sum.splits option.splits)

lemma ids_post_comment:
  "event_id ` set (events (snd (post_comment now b i v d))) = event_id ` set (events d)"
  by (simp add: post_comment_def Let_def ids_save_event
      split: sum.splits option.splits json.splits)

lemma events_register: "events (snd (register L now bd d)) = events d"
  by (auto simp: register_def save_user_def Let_def split: sum.splits option.splits if_splits)

lemma events_login: "events (snd (login L now bd d)) = events d"
  by (simp add: login_def Let_def split: sum.splits option.splits)

lemma delete_event_removes:
  assumes "events (snd (delete_event b i d)) \<noteq> events d"
  shows "\<exists>u e. auth (users d) b = Inr u \<and> findById i (events d) = Some e
           \<and> organizer_id e = user_id u"
  using assms by (auto simp: delete_event_def split: sum.splits option.splits if_splits)

lemma admin_delete_event_removes:
  assumes "events (snd (admin_delete_event b i d)) \<noteq> events d"
  shows "\<exists>a. adminAuth (users d) b = Inr a"
  using assms by (auto simp: admin_delete_event_def split: sum.splits option.splits)

lemma ids_delete_first_other:
  "j \<noteq> i \<Longrightarrow> j \<in> event_id ` set es \<Longrightarrow>
   j \<in> event_id ` set (delete_first (\<lambda>e. event_id e = i) es)"
  by (induction es) auto

lemma delete_event_other:
  "j \<noteq> i \<Longrightarrow> j \<in> event_id ` set (events d) \<Longrightarrow>
   j \<in> event_id ` set (events (snd (delete_event b i d)))"
  by (auto simp: delete_event_def findByIdAndDelete_def ids_delete_first_other
      split: sum.splits option.splits)

lemma admin_delete_event_other:
  "j \<noteq> i \<Longrightarrow> j \<in> event_id ` set (events d) \<Longrightarrow>
   j \<in> event_id ` set (events (snd (admin_delete_event b i d)))"
  by (auto simp: admin_delete_event_def findByIdAndDelete_def ids_delete_first_other
      split: sum.splits option.splits)

lemma admin_delete_user_removes:
  assumes "i \<in> event_id ` set (events d)"
    and "i \<notin> event_id ` set (events (snd (admin_delete_user b uid d)))"
  shows "\<exists>a. adminAuth (users d) b = Inr a \<and> uid \<noteq> user_id a
           \<and> find (\<lambda>u. user_id u = uid) (users d) \<noteq> None
           \<and> (\<forall>e\<in>set (events d). event_id e = i \<longrightarrow> organizer_id e = uid)"
proof -
  from assms have changed: "events (snd (admin_delete_user b uid d)) \<noteq> events d" by auto
  then obtain a where a: "adminAuth (users d) b = Inr a"
    by (cases "adminAuth (users d) b") (auto simp: admin_delete_user_def)
  from changed a have self: "uid \<noteq> user_id a"
    by (auto simp: admin_delete_user_def)
  from changed a self obtain u where u: "find (\<lambda>u. user_id u = uid) (users d) = Some u"
    by (cases "find (\<lambda>u. user_id u = uid) (users d)") (auto simp: admin_delete_user_def)
  from a self u have "events (snd (admin_delete_user b uid d)) =
      filter (\<lambda>e. organizer_id e \<noteq> uid) (events d)"
    by (simp add: admin_delete_user_def)
  with assms(2) have "i \<notin> event_id ` set (filter (\<lambda>e. organizer_id e \<noteq> uid) (events d))"
    by simp
  then have "\<forall>e\<in>set (events d). event_id e = i \<longrightarrow> organizer_id e = uid"
    by force
  with a self u show ?thesis by simp
qed

text \<open>
  C1, as amended. Leave the clear-all route aside. Whenever a request makes an event id
  disappear from the event collection, the request is one of three: the delete route
  sent by the authenticated organizer of that event; the admin route that deletes a user
  other than the administrator, sent by an administrator, where every event of that id
  is organized by the deleted user (the cascade); or the admin route that deletes an
  event, sent by an administrator. No other request, and none without a valid token,
  removes an event.
\<close>

theorem event_removed_only_by_organizer_or_admin:
  assumes "i \<in> event_id ` set (events d)"
    and "i \<notin> event_id ` set (events (snd (handle L now d r)))"
    and "\<forall>b. r \<noteq> ClearAll b"
  shows "(\<exists>b u e. r = DeleteEvent b i \<and> auth (users d) b = Inr u
            \<and> findById i (events d) = Some e \<and> organizer_id e = user_id u)
       \<or> (\<exists>b a uid. r = AdminDeleteUser b uid \<and> adminAuth (users d) b = Inr a
            \<and> uid \<noteq> user_id a \<and> find (\<lambda>u. user_id u = uid) (users d) \<noteq> None
            \<and> (\<forall>e\<in>set (events d). event_id e = i \<longrightarrow> organizer_id e = uid))
       \<or> (\<exists>b a. r = AdminDeleteEvent b i \<and> adminAuth (users d) b = Inr a)"
proof (cases r)
  case (PostEvent b bd)
  with assms(1,2) ids_post_event[of d L now b bd] show ?thesis by auto
next
  case (PutEvent b j bd)
  with assms(1,2) show ?thesis by (simp add: ids_put_event)
next
  case (DeleteEvent b j)
  show ?thesis
  proof (cases "j = i")
    case True
    from assms(1,2) have "events (snd (delete_event b i d)) \<noteq> events d"
      using DeleteEvent True by auto
    from delete_event_removes[OF this] DeleteEvent True show ?thesis by auto
  next
    case False
    with delete_event_other[of i j d b] assms(1,2) DeleteEvent show ?thesis by auto
  qed
next
  case (PostRsvp b j v)
  with assms(1,2) show ?thesis by (simp add: ids_post_rsvp)
next
  case (PostFavorite b j v)
  with assms(1,2) show ?thesis by (simp add: ids_post_favorite)
next
  case (PostComment b j v)
  with assms(1,2) show ?thesis by (simp add: ids_post_comment)
next
  case (ClearAll b)
  with assms(3) show ?thesis by simp
next
  case (Register bd)
  with assms(1,2) show ?thesis by (simp add: events_register)
next
  case (Login bd)
  with assms(1,2) show ?thesis by (simp add: events_login)
next
  case (AdminDeleteUser b uid)
  with admin_delete_user_removes[of i d b uid] assms(1,2) show ?thesis by simp
next
  case (AdminDeleteEvent b j)
  show ?thesis
  proof (cases "j = i")
    case True
    from assms(1,2) have "events (snd (admin_delete_event b i d)) \<noteq> events d"
      using AdminDeleteEvent True by auto
    from admin_delete_event_removes[OF this] AdminDeleteEvent True show ?thesis by auto
  next
    case False
    with admin_delete_event_other[of i j d b] assms(1,2) AdminDeleteEvent show ?thesis by auto
  qed
qed (use assms in auto)


theorem event_removed_only_by_organizer_or_admin_witness:
  "10 \<in> event_id ` set (events db0)
   \<and> 10 \<notin> event_id ` set (events (snd (handle test_libs 6 db0 (DeleteEvent (GoodToken 4) 10))))
   \<and> (\<forall>b. DeleteEvent (GoodToken 4) 10 \<noteq> ClearAll b)
   \<and> auth (users db0) (GoodToken 4) = Inr alice \<and> findById 10 (events db0) = Some picnic
   \<and> organizer_id picnic = user_id alice"
proof -
  have h1: "10 \<in> event_id ` set (events db0)" by (simp add: test_data)
  have h2: "10 \<notin> event_id ` set (events (snd (handle test_libs 6 db0
              (DeleteEvent (GoodToken 4) 10))))"
    by (simp add: delete_event_def findByIdAndDelete_def) (simp add: test_data)
  have h3: "\<forall>b. DeleteEvent (GoodToken 4) 10 \<noteq> ClearAll b" by simp
  from event_removed_only_by_organizer_or_admin[OF h1 h2 h3]
  show ?thesis using h1 h2 by auto
qed

text \<open>
  The admin router has a route that deletes any event. An administrator who is not the
  organizer removes the event while its organizer stays a user, so the removal is neither
  the organizer's nor a cascade.
\<close>

theorem admin_deletes_foreign_event_counterexample:
  "adminAuth (users db0) (GoodToken 3) = Inr root
   \<and> findById 10 (events db0) = Some picnic \<and> organizer_id picnic \<noteq> user_id root
   \<and> fst (handle test_libs 6 db0 (AdminDeleteEvent (GoodToken 3) 10)) =
       (200, Message ''Event deleted successfully'')
   \<and> events (snd (handle test_libs 6 db0 (AdminDeleteEvent (GoodToken 3) 10))) = []
   \<and> users (snd (handle test_libs 6 db0 (AdminDeleteEvent (GoodToken 3) 10))) = users db0"
proof -
  have a: "adminAuth (users db0) (GoodToken 3) = Inr root"
    by (simp add: adminAuth_def) (simp add: root_def)
  then show ?thesis
    by (simp add: admin_delete_event_def findByIdAndDelete_def) (simp add: test_data)
qed

text \<open>
  The clear-all route is announced as admin-only in its comment and is registered without
  a guard: it empties the collection for any sender.
\<close>

lemma clear_all_unguarded:
  "handle L now d (ClearAll b) = ((200, Cleared (length (events d))), d\<lparr>events := []\<rparr>)"
  by (simp add: clear_all_def)

subsection \<open>Comments\<close>

lemma insort_key_split:
  "sorted (map f ys) \<Longrightarrow>
   insort_key f x ys = filter (\<lambda>y. f y < f x) ys @ x # filter (\<lambda>y. f x \<le> f y) ys"
proof (induction ys)
  case Nil
  then show ?case by simp
next
  case (Cons y ys)
  show ?case
  proof (cases "f x \<le> f y")
    case True
    with Cons.prems have all: "\<forall>z\<in>set (y # ys). f x \<le> f z" by auto
    then have "filter (\<lambda>z. f z < f x) (y # ys) = []"
      by (auto simp: filter_empty_conv)
    moreover from all have "filter (\<lambda>z. f x \<le> f z) (y # ys) = y # ys"
      by (auto simp: filter_id_conv)
    ultimately show ?thesis using True by simp
  next
    case False
    with Cons show ?thesis by simp
  qed
qed

lemma sort_key_Cons_split:
  "sort_key f (x # xs) =
     filter (\<lambda>y. f y < f x) (sort_key f xs) @ x # filter (\<lambda>y. f x \<le> f y) (sort_key f xs)"
  by (simp add: insort_key_split)

lemma sort_comments_Cons:
  "sort_comments (c # cs) =
     filter (\<lambda>x. comment_created_at c < comment_created_at x) (sort_comments cs) @
     c # filter (\<lambda>x. comment_created_at x \<le> comment_created_at c) (sort_comments cs)"
  unfolding sort_comments_def by (subst sort_key_Cons_split) simp

lemma post_comment_cases:
  "snd (post_comment now b j v d) = d \<or>
   (\<exists>ej c. findById j (events d) = Some ej \<and>
      events (snd (post_comment now b j v d)) =
        events (save_event (ej\<lparr>comments := comments ej @ [c]\<rparr>) d))"
  by (auto simp: post_comment_def Let_def split: sum.splits json.splits option.splits)

lemma post_comment_appends:
  assumes "findById i (events d) = Some e"
  shows "\<exists>new. map_option comments (findById i (events (snd (post_comment now b j v d)))) =
           Some (comments e @ new)"
proof -
  from post_comment_cases[of now b j v d] show ?thesis
  proof
    assume "snd (post_comment now b j v d) = d"
    with assms show ?thesis by simp
  next
    assume "\<exists>ej c. findById j (events d) = Some ej \<and>
      events (snd (post_comment now b j v d)) =
        events (save_event (ej\<lparr>comments := comments ej @ [c]\<rparr>) d)"
    then obtain ej c where ej: "findById j (events d) = Some ej"
      and d': "events (snd (post_comment now b j v d)) =
        events (save_event (ej\<lparr>comments := comments ej @ [c]\<rparr>) d)"
      by blast
    let ?e' = "ej\<lparr>comments := comments ej @ [c]\<rparr>"
    have id: "event_id ?e' = j" using findById_event_id[OF ej] by simp
    have look: "findById i (events (save_event ?e' d)) =
                (if i = j then Some ?e' else findById i (events d))"
      using findById_save_event[of ?e' d i] ej id by simp
    show ?thesis
    proof (cases "i = j")
      case True
      with assms ej have "ej = e" by simp
      with look True d' show ?thesis by simp
    next
      case False
      with look d' assms show ?thesis by simp
    qed
  qed
qed

lemma run_comments_append:
  assumes "list_all (\<lambda>r. is_comment_request (snd r)) rs"
    and "findById i (events d) = Some e"
  shows "\<exists>later. map_option comments (findById i (events (run L d rs))) =
           Some (comments e @ later)"
  using assms
proof (induction rs arbitrary: d e)
  case Nil
  then show ?case by simp
next
  case (Cons r rs)
  from Cons.prems(1) obtain b j v where r: "snd r = PostComment b j v"
    by (auto simp: is_comment_request_def split: request.splits)
  from post_comment_appends[OF Cons.prems(2), of "fst r" b j v]
  obtain new e1 where e1: "findById i (events (snd (post_comment (fst r) b j v d))) = Some e1"
    and c1: "comments e1 = comments e @ new"
    by auto
  from Cons.prems(1) have "list_all (\<lambda>r. is_comment_request (snd r)) rs" by simp
  from Cons.IH[OF this e1] obtain later where
    "map_option comments (findById i (events (run L (snd (post_comment (fst r) b j v d)) rs))) =
       Some (comments e1 @ later)"
    by blast
  with c1 have "map_option comments
      (findById i (events (run L (snd (post_comment (fst r) b j v d)) rs))) =
       Some (comments e @ (new @ later))"
    by simp
  then show ?case unfolding run.simps r handle.simps by (rule exI)
qed

lemma get_comments_eq:
  "map_option comments (findById i (events d)) = Some cs \<Longrightarrow>
   get_comments b i d = (200, CommentList (sort_comments cs))"
  by (auto simp: get_comments_def)

lemma trim_Hello: "trim ''Hello'' = ''Hello''"
  by (simp add: trim_def is_space_def)

text \<open>
  C9, as amended. User B posts the comment \<^verbatim>\<open>Hello\<close> at time \<open>t\<close> on a stored event
  without comments. The comment list of the event then is exactly that one comment, with
  text \<^verbatim>\<open>Hello\<close> and the username of B. After any further comment posts the stored
  comments are that comment followed by the later-added ones, and the returned list is
  newest first: the later-added comments created strictly after \<open>t\<close> come before the
  \<^verbatim>\<open>Hello\<close> comment, those created at \<open>t\<close> or earlier come after it.
\<close>

theorem first_comment_listed_newest_first:
  assumes "auth (users d) b = Inr u" and "findById i (events d) = Some e"
    and "comments e = []"
    and "list_all (\<lambda>r. is_comment_request (snd r)) rs"
  shows "\<exists>later.
           get_comments b' i (snd (handle L t d (PostComment b i (JStr ''Hello'')))) =
             (200, CommentList
               [\<lparr>comment_id = next_oid d, comment_user_id = user_id u,
                 comment_username = username u, comment_text = ''Hello'',
                 comment_created_at = t\<rparr>])
         \<and> map_option comments
             (findById i
               (events (run L (snd (handle L t d (PostComment b i (JStr ''Hello'')))) rs))) =
             Some (\<lparr>comment_id = next_oid d, comment_user_id = user_id u,
                     comment_username = username u, comment_text = ''Hello'',
                     comment_created_at = t\<rparr> # later)
         \<and> get_comments b' i
             (run L (snd (handle L t d (PostComment b i (JStr ''Hello'')))) rs) =
             (200, CommentList
               (filter (\<lambda>c. t < comment_created_at c) (sort_comments later) @
                \<lparr>comment_id = next_oid d, comment_user_id = user_id u,
                  comment_username = username u, comment_text = ''Hello'',
                  comment_created_at = t\<rparr> #
                filter (\<lambda>c. comment_created_at c \<le> t) (sort_comments later)))"
proof -
  let ?c0 = "\<lparr>comment_id = next_oid d, comment_user_id = user_id u,
               comment_username = username u, comment_text = ''Hello'',
               comment_created_at = t\<rparr>"
  let ?e1 = "e\<lparr>comments := [?c0]\<rparr>"
  let ?d1 = "snd (handle L t d (PostComment b i (JStr ''Hello'')))"
  have d1: "events ?d1 = events (save_event ?e1 d)"
    using assms(1-3) by (simp add: post_comment_def trim_Hello Let_def)
  have id: "event_id ?e1 = i" using findById_event_id[OF assms(2)] by simp
  have e1: "findById i (events ?d1) = Some ?e1"
    using findById_save_event[of ?e1 d i] assms(2) id d1 by simp
  then have first: "get_comments b' i ?d1 = (200, CommentList [?c0])"
    by (simp add: get_comments_def sort_comments_def)
  from run_comments_append[OF assms(4) e1, of L] obtain later where
    later: "map_option comments (findById i (events (run L ?d1 rs))) = Some (?c0 # later)"
    by auto
  from get_comments_eq[OF later, of b']
  have "get_comments b' i (run L ?d1 rs) =
          (200, CommentList
            (filter (\<lambda>c. t < comment_created_at c) (sort_comments later) @
             ?c0 # filter (\<lambda>c. comment_created_at c \<le> t) (sort_comments later)))"
    by (simp add: sort_comments_Cons)
  with first later show ?thesis by blast
qed

text \<open>
  The list is sorted by creation time, newest first. A comment added later, at a later
  time, is returned before the \<^verbatim>\<open>Hello\<close> comment, not after it.
\<close>

theorem later_comment_listed_first_counterexample:
  "get_comments NoToken 10
     (run test_libs db0
        [(100, PostComment (GoodToken 2) 10 (JStr ''Hello'')),
         (200, PostComment (GoodToken 4) 10 (JStr ''Second''))]) =
   (200, CommentList
      [\<lparr>comment_id = 12, comment_user_id = 4, comment_username = ''alice'',
         comment_text = ''Second'', comment_created_at = 200\<rparr>,
       \<lparr>comment_id = 11, comment_user_id = 2, comment_username = ''bob'',
         comment_text = ''Hello'', comment_created_at = 100\<rparr>])"
  by code_simp

theorem first_comment_listed_newest_first_witness:
  "auth (users db0) (GoodToken 2) = Inr bob \<and> findById 10 (events db0) = Some picnic
   \<and> comments picnic = []
   \<and> list_all (\<lambda>r. is_comment_request (snd r))
         [(200, PostComment (GoodToken 4) 10 (JStr ''Second''))]
   \<and> get_comments NoToken 10
         (snd (handle test_libs 100 db0 (PostComment (GoodToken 2) 10 (JStr ''Hello'')))) =
       (200, CommentList
          [\<lparr>comment_id = 11, comment_user_id = 2, comment_username = ''bob'',
             comment_text = ''Hello'', comment_created_at = 100\<rparr>])"
proof -
  have h1: "auth (users db0) (GoodToken 2) = Inr bob" by simp
  have h2: "findById 10 (events db0) = Some picnic" by simp
  have h3: "comments picnic = []" by (simp add: picnic_def)
  have h4: "list_all (\<lambda>r. is_comment_request (snd r))
         [(200, PostComment (GoodToken 4) 10 (JStr ''Second''))]"
    by (simp add: is_comment_request_def)
  from first_comment_listed_newest_first[OF h1 h2 h3 h4, where L = test_libs and t = 100
      and b' = NoToken]
  have "get_comments NoToken 10
         (snd (handle test_libs 100 db0 (PostComment (GoodToken 2) 10 (JStr ''Hello'')))) =
       (200, CommentList
          [\<lparr>comment_id = next_oid db0, comment_user_id = user_id bob,
            comment_username = username bob, comment_text = ''Hello'',
            comment_created_at = 100\<rparr>])"
    by blast
  then show ?thesis using h1 h2 h3 h4 by (simp add: db0_def bob_def)
qed

subsection \<open>Listing events\<close>

lemma parse_pieces_plain: "plain p \<Longrightarrow> parse_pieces p = Some (map (\<lambda>c. One (Lit c)) p)"
proof (induction p rule: parse_pieces.induct)
  case 1
  then show ?case by simp
next
  case (2 c)
  then show ?case by (auto simp: plain_def is_meta_def atom_of_def)
next
  case (3 c q cs)
  from "3.prems" have c: "\<not> is_meta c" and q: "\<not> is_meta q" and rest: "plain (q # cs)"
    by (simp_all add: plain_def)
  from c have dot: "c \<noteq> CHR ''.''" by (auto simp: is_meta_def)
  from q have nq: "q \<noteq> CHR ''*''" "q \<noteq> CHR ''+''" "q \<noteq> CHR ''?''"
    by (auto simp: is_meta_def)
  from "3.IH"(4)[OF _ nq rest] c have "parse_pieces (q # cs) = Some (map (\<lambda>c. One (Lit c)) (q # cs))"
    by simp
  with c nq dot show ?case by (simp add: atom_of_def)
qed

lemma match_here_literal:
  "match_here (map (\<lambda>c. One (Lit c)) p) False s \<longleftrightarrow> prefix (toLowerCase p) (toLowerCase s)"
proof (induction p arbitrary: s)
  case Nil
  then show ?case by (simp add: toLowerCase_def)
next
  case (Cons c p)
  then show ?case by (cases s) (auto simp: toLowerCase_def)
qed

lemma search_from_literal:
  "search_from (map (\<lambda>c. One (Lit c)) p) False s \<longleftrightarrow> contains_ci p s"
proof (induction s)
  case Nil
  then show ?case
    using match_here_literal[of p "[]"] by (simp add: contains_ci_def toLowerCase_def)
next
  case (Cons x s)
  then show ?case
    using match_here_literal[of p "x # s"]
    by (simp add: contains_ci_def toLowerCase_def sublist_Cons_right)
qed

lemma regex_ref_plain:
  assumes "plain p"
  shows "\<exists>m. regex_ref p = Some m \<and> (\<forall>s. m s = contains_ci p s)"
proof -
  have hat: "\<not> (p \<noteq> [] \<and> hd p = CHR ''^'')"
    using assms by (cases p) (auto simp: plain_def is_meta_def)
  have "p \<noteq> [] \<Longrightarrow> \<not> is_meta (last p)"
    using assms last_in_set[of p] by (auto simp: plain_def list_all_iff)
  then have dollar: "\<not> (p \<noteq> [] \<and> last p = CHR ''$'')"
    by (auto simp: is_meta_def)
  show ?thesis
    by (simp add: regex_ref_def Let_def hat dollar parse_pieces_plain[OF assms]
        search_from_literal)
qed

lemma test_libs_substring_engine: "substring_engine test_libs"
  by (simp add: substring_engine_def test_libs_def regex_ref_plain)


lemma count_list_insort_key: "count_list (insort_key f x xs) y = count_list (x # xs) y"
  by (induction xs) auto

lemma count_list_sort_key: "count_list (sort_key f xs) y = count_list xs y"
  by (induction xs) (simp_all add: count_list_insort_key)

lemma sort_events_ordered: "sorted_wrt listing_order (sort_events es)"
proof -
  let ?f = "\<lambda>e. (date e, - created_at e)"
  have "sorted (map ?f (sort_events es))"
    unfolding sort_events_def by (rule sorted_sort_key)
  then have "sorted_wrt (\<lambda>a b. ?f a \<le> ?f b) (sort_events es)"
    by (simp add: sorted_map)
  moreover have "\<And>a b. ?f a \<le> ?f b \<Longrightarrow> listing_order a b"
    by (auto simp: listing_order_def less_eq_prod_def)
  ultimately show ?thesis by (rule sorted_wrt_mono_rel[rotated]) auto
qed

lemma search_matcher_plain:
  assumes "substring_engine L" and "case search of None \<Rightarrow> True | Some p \<Rightarrow> plain p"
  shows "\<exists>m. search_matcher L search = Some m \<and>
           (\<forall>s. m s = (case search of None \<Rightarrow> True | Some p \<Rightarrow> p = [] \<or> contains_ci p s))"
proof (cases search)
  case None
  then show ?thesis by (simp add: search_matcher_def)
next
  case (Some p)
  with assms(2) have "plain p" by simp
  with assms(1) obtain m where "regex_i L p = Some m" "\<forall>s. m s = contains_ci p s"
    by (auto simp: substring_engine_def)
  with Some show ?thesis by (simp add: search_matcher_def)
qed

text \<open>
  C8, as amended. Let the engine be a substring engine and the search text, when given,
  be plain. Then the listing answers 200 with the projections of exactly the stored
  events (each as often as it is stored) whose category equals the category filter when
  one is given and which, when a search text is given, contain it as a case-insensitive
  substring of title, description or location; and the result is ordered by date
  ascending and, for equal dates, by creation time descending.
\<close>

theorem listing_filters_and_orders:
  assumes "substring_engine L" and "case search of None \<Rightarrow> True | Some p \<Rightarrow> plain p"
  shows "\<exists>es. get_events L b cat search d =
                (200, EventList (map (toClientJSON (optionalAuth (users d) b)) es))
           \<and> (\<forall>e. count_list es e = count_list (filter (listed cat search) (events d)) e)
           \<and> sorted_wrt listing_order es"
proof -
  from search_matcher_plain[OF assms] obtain m where
    m: "search_matcher L search = Some m"
    and ms: "\<And>s. m s = (case search of None \<Rightarrow> True | Some p \<Rightarrow> p = [] \<or> contains_ci p s)"
    by blast
  have "\<And>e. matches_query cat m e = listed cat search e"
    by (auto simp: matches_query_def listed_def category_ok_def ms split: option.splits)
  then have "matches_query cat m = listed cat search" by (rule ext)
  then have same: "filter (matches_query cat m) (events d) = filter (listed cat search) (events d)"
    by simp
  let ?es = "sort_events (filter (listed cat search) (events d))"
  have "get_events L b cat search d =
          (200, EventList (map (toClientJSON (optionalAuth (users d) b)) ?es))"
    by (simp add: get_events_def m same)
  moreover have "\<forall>e. count_list ?es e = count_list (filter (listed cat search) (events d)) e"
    by (simp add: sort_events_def count_list_sort_key)
  moreover have "sorted_wrt listing_order ?es" by (rule sort_events_ordered)
  ultimately show ?thesis by blast
qed

theorem listing_filters_and_orders_witness:
  "substring_engine test_libs \<and> plain ''PIC''
   \<and> (\<exists>es. get_events test_libs NoToken (Some ''community'') (Some ''PIC'') db0 =
                (200, EventList (map (toClientJSON (optionalAuth (users db0) NoToken)) es))
           \<and> (\<forall>e. count_list es e =
                  count_list (filter (listed (Some ''community'') (Some ''PIC'')) (events db0)) e)
           \<and> sorted_wrt listing_order es)
   \<and> get_events test_libs NoToken (Some ''community'') (Some ''PIC'') db0 =
        (200, EventList [toClientJSON None picnic])"
proof -
  have h1: "substring_engine test_libs" by (rule test_libs_substring_engine)
  have p: "plain ''PIC''" by (simp add: plain_def is_meta_def)
  then have h2: "case Some ''PIC'' of None \<Rightarrow> True | Some p \<Rightarrow> plain p" by simp
  have ev: "get_events test_libs NoToken (Some ''community'') (Some ''PIC'') db0 =
        (200, EventList [toClientJSON None picnic])"
    by code_simp
  from listing_filters_and_orders[OF h1 h2, of NoToken "Some ''community''" db0]
  show ?thesis using h1 p ev by simp
qed

text \<open>
  The search text is handed to \<^verbatim>\<open>$regex\<close> as a pattern. The text \<^verbatim>\<open>p.c\<close> lists an
  event titled \<^verbatim>\<open>Picnic\<close>, although none of its three fields contains \<^verbatim>\<open>p.c\<close>.
\<close>

theorem search_is_a_pattern_counterexample:
  "get_events test_libs NoToken None (Some ''p.c'') db0 =
     (200, EventList [toClientJSON None picnic])
   \<and> \<not> contains_ci ''p.c'' (title picnic) \<and> \<not> contains_ci ''p.c'' (description picnic)
   \<and> \<not> contains_ci ''p.c'' (location picnic)"
  by code_simp

subsection \<open>Registration\<close>

text \<open>
  C6. The claim: usernames and emails are unique up to case, and a registration whose
  email or username matches an existing one up to case is rejected with 409. The route
  builds the pattern of its username lookup from the username without escaping it. For
  the username \<^verbatim>\<open>a+b\<close> the pattern \<^verbatim>\<open>^a+b$\<close> matches \<^verbatim>\<open>ab\<close> and \<^verbatim>\<open>aab\<close> but not
  \<^verbatim>\<open>a+b\<close> itself, so after \<^verbatim>\<open>a+b\<close> has registered, \<^verbatim>\<open>A+B\<close> with another email
  is not found by the lookup, passes the exact unique index and is stored with 201: two
  users whose usernames differ only by case.
\<close>

theorem register_case_variant_accepted:
  "fst (register test_libs 20 plus_lower db0) =
     (201, AuthBody \<lparr>ab_id = 11, ab_username = ''a+b'', ab_email = ''first@example.com'',
                     ab_isAdmin = False, ab_token = 11\<rparr>)
   \<and> fst (register test_libs 21 plus_upper (snd (register test_libs 20 plus_lower db0))) =
     (201, AuthBody \<lparr>ab_id = 12, ab_username = ''A+B'', ab_email = ''second@example.com'',
                     ab_isAdmin = False, ab_token = 12\<rparr>)
   \<and> map username
        (users (snd (register test_libs 21 plus_upper
                       (snd (register test_libs 20 plus_lower db0))))) =
       [''alice'', ''bob'', ''root'', ''a+b'', ''A+B'']
   \<and> toLowerCase ''A+B'' = toLowerCase ''a+b''"
  by code_simp

text \<open>
  When the engine rejects the pattern built from the username, the route answers 500,
  whatever the collection holds.
\<close>

lemma register_pattern_rejected:
  assumes "registerSchema_validate L b = None"
    and "regex_i L (''^'' @ trim (str_of (rb_username b)) @ ''$'') = None"
  shows "register L now b d =
           ((500, Message ''Unable to create account. Please try again later.''), d)"
  using assms by (simp add: register_def)

end
